theory Spec2Isabelle
  imports Main
begin

section \<open>The allocator (common.c)\<close>

text \<open>
  The C heap is global state. It is carried inside the tokenizer record (field \<open>mem\<close>),
  the innermost state every allocating function can reach.

  \<^item> \<open>outcomes\<close>: the outcome of each successive call of malloc or realloc
    (\<open>False\<close>: the call returns NULL); once the list is used up every call succeeds.
  \<^item> \<open>top\<close>: the next fresh address; \<open>live\<close>: the blocks allocated and not yet released,
    each with what it was allocated for; the lexeme buffer carries its size in bytes.
  \<^item> \<open>wrong\<close>: the addresses handed to \<open>mem_free\<close> while not live (a second release).
  \<^item> \<open>fault\<close>: the C program has made an invalid memory access (a read outside an
    array, a write through NULL). Nothing is known about the C program after that point;
    the model keeps running only so that every function stays total.
\<close>

datatype block = Node | Text | Buffer nat

record heap =
  outcomes :: "bool list"
  top :: nat
  live :: "(nat \<times> block) list"
  wrong :: "nat list"
  fault :: bool

definition heap_init :: "bool list \<Rightarrow> heap" where
  "heap_init os = \<lparr>outcomes = os, top = 0, live = [], wrong = [], fault = False\<rparr>"

text \<open>\<open>mem_alloc\<close>: the size argument of the C function is represented by the block kind.\<close>

definition mem_alloc :: "block \<Rightarrow> heap \<Rightarrow> nat option \<times> heap" where
  "mem_alloc k h =
     (case outcomes h of
        False # os \<Rightarrow> (None, h\<lparr>outcomes := os\<rparr>)
      | _ \<Rightarrow> (Some (top h),
              h\<lparr>outcomes := tl (outcomes h), top := top h + 1, live := (top h, k) # live h\<rparr>))"

definition mem_free :: "nat \<Rightarrow> heap \<Rightarrow> heap" where
  "mem_free a h =
     (if a \<in> fst ` set (live h) then h\<lparr>live := filter (\<lambda>e. fst e \<noteq> a) (live h)\<rparr>
      else h\<lparr>wrong := a # wrong h\<rparr>)"

text \<open>
  \<open>realloc\<close> of the lexeme buffer to \<open>n\<close> bytes. The buffer is referenced from one place
  only, so a successful call is modelled as keeping the address; on NULL it allocates. A
  call that fails leaves the block as it was.
\<close>

definition mem_realloc :: "nat option \<Rightarrow> nat \<Rightarrow> heap \<Rightarrow> nat option \<times> heap" where
  "mem_realloc p n h =
     (case outcomes h of
        False # os \<Rightarrow> (None, h\<lparr>outcomes := os\<rparr>)
      | _ \<Rightarrow> (case p of
                None \<Rightarrow> mem_alloc (Buffer n) h
              | Some a \<Rightarrow>
                  (Some a, h\<lparr>outcomes := tl (outcomes h),
                             live := map (\<lambda>e. if fst e = a then (a, Buffer n) else e) (live h)\<rparr>)))"

text \<open>
  \<open>mem_free\<close> of the C code clears \<open>size\<close> bytes of the block before it releases it. The
  callers in ast.c pass the size the node was allocated with and \<open>string_free\<close> passes 0;
  \<open>lexer_free\<close> passes \<open>lexeme_max\<close>, which can be more than the buffer holds.
  \<open>mem_clear\<close> is that \<open>memset\<close> on the lexeme buffer: beyond the end of the block it is an
  invalid write.
\<close>

definition mem_clear :: "nat \<Rightarrow> nat \<Rightarrow> heap \<Rightarrow> heap" where
  "mem_clear a n h =
     (case map_of (live h) a of
        Some (Buffer m) \<Rightarrow> if m < n then h\<lparr>fault := True\<rparr> else h
      | _ \<Rightarrow> h)"

section \<open>Text buffers (defs.h, common.h, common.c)\<close>

definition NUL :: char where "NUL = CHR 0x00"

text \<open>
  \<open>struct string\<close>: the null string (\<open>valid = 0\<close>), a borrowed buffer (\<open>raw = 1\<close>) or an
  owned block at an address of the heap. The field \<open>length\<close> is 30 bits wide.

  \<^item> \<open>Raw b n\<close> borrows the object whose bytes are \<open>b\<close>, from the pointer to the end of the
    object, and has the length \<open>n\<close>. Nothing ties \<open>n\<close> to \<open>b\<close>: the bytes can go on after
    the length, and they need not hold a terminator.
  \<^item> \<open>Owned a t\<close> is the block at \<open>a\<close> that \<open>string_alloc\<close> made for the text \<open>t\<close>: its buffer
    holds \<open>t\<close> and a terminating NUL.
\<close>

datatype cstring = NULL_STRING | Raw string nat | Owned nat string

text \<open>\<open>strlen\<close> of an object that holds a NUL.\<close>

definition strlen :: "string \<Rightarrow> nat" where
  "strlen b = length (takeWhile (\<lambda>c. c \<noteq> NUL) b)"

definition string_from_buf_n :: "string \<Rightarrow> nat \<Rightarrow> cstring" where
  "string_from_buf_n b n = Raw b (n mod 2 ^ 30)"

text \<open>
  \<open>string_from_buf\<close> takes a C string; its argument here is the text before the
  terminator, as in a string literal of C.
\<close>

definition string_from_buf :: "string \<Rightarrow> cstring" where
  "string_from_buf t = string_from_buf_n (t @ [NUL]) (strlen (t @ [NUL]))"

definition string_dup_n :: "string \<Rightarrow> heap \<Rightarrow> cstring \<times> heap" where
  "string_dup_n s h =
     (case mem_alloc Text h of
        (None, h1) \<Rightarrow> (NULL_STRING, h1)
      | (Some a, h1) \<Rightarrow> (Owned a s, h1))"

text \<open>\<open>string_dup\<close> takes a C string: it copies up to the first NUL.\<close>

definition string_dup :: "string \<Rightarrow> heap \<Rightarrow> cstring \<times> heap" where
  "string_dup s h = string_dup_n (takeWhile (\<lambda>c. c \<noteq> NUL) s) h"

definition string_free :: "cstring \<Rightarrow> heap \<Rightarrow> heap" where
  "string_free s h = (case s of Owned a _ \<Rightarrow> mem_free a h | _ \<Rightarrow> h)"

text \<open>\<open>string_text\<close>: the buffer of a string, NULL for the null string.\<close>

definition string_text :: "cstring \<Rightarrow> string option" where
  "string_text s =
     (case s of NULL_STRING \<Rightarrow> None | Raw b n \<Rightarrow> Some b | Owned a t \<Rightarrow> Some (t @ [NUL]))"

definition string_length :: "cstring \<Rightarrow> nat" where
  "string_length s =
     (case s of NULL_STRING \<Rightarrow> 0 | Raw b n \<Rightarrow> n | Owned a t \<Rightarrow> length t mod 2 ^ 30)"

section \<open>The tokenizer (lexer.h, lexer.c)\<close>

datatype token_type =
    TOKEN_INVALID
  | TOKEN_AND | TOKEN_BREAK | TOKEN_CONTINUE | TOKEN_ELIF | TOKEN_ELSE
  | TOKEN_ENDFOREACH | TOKEN_ENDIF | TOKEN_FALSE | TOKEN_FOREACH | TOKEN_IF
  | TOKEN_IN | TOKEN_NOT | TOKEN_OR | TOKEN_TRUE
  | TOKEN_IDENTIFIER | TOKEN_BIN_NUMBER | TOKEN_DEC_NUMBER | TOKEN_OCT_NUMBER
  | TOKEN_HEX_NUMBER | TOKEN_STRING | TOKEN_MULTILINE_STRING
  | TOKEN_L_PAREN | TOKEN_L_BRACE | TOKEN_L_BRACKET
  | TOKEN_R_PAREN | TOKEN_R_BRACE | TOKEN_R_BRACKET
  | TOKEN_ASSIGN | TOKEN_DOT | TOKEN_COLON | TOKEN_COMMA | TOKEN_TERNARY
  | TOKEN_PLUS | TOKEN_MINUS | TOKEN_STAR | TOKEN_SLASH | TOKEN_PERCENT
  | TOKEN_ADD_ASSIGN | TOKEN_SUB_ASSIGN | TOKEN_MOD_ASSIGN | TOKEN_MUL_ASSIGN
  | TOKEN_DIV_ASSIGN
  | TOKEN_LT | TOKEN_LE | TOKEN_GT | TOKEN_GE | TOKEN_EQ | TOKEN_NE
  | TOKEN_INC | TOKEN_DEC
  | TOKEN_NEWLINE | TOKEN_END | TOKEN_ERROR

text \<open>
  \<open>struct lexer\<close>. \<open>input\<close> is the object the pointer \<open>input\<close> refers to, as the bytes from
  the pointer to the end of the object (no bytes for NULL), and \<open>input_len\<close> the length
  that \<open>lexer_init\<close> was given; the two are independent. \<open>lexeme_ptr\<close> is the buffer pointer
  (\<open>None\<close> is NULL) and \<open>lexeme\<close> the bytes written to the buffer from index 0 on;
  after \<open>finish\<close> it is the C string the buffer holds. \<open>lexeme_len\<close> and \<open>lexeme_max\<close> are
  \<open>size_t\<close>, taken to be 64 bits wide. The field \<open>lexeme_pos\<close> of the C struct is never
  used.
\<close>

record lexer =
  error :: bool
  input :: string
  input_pos :: nat
  input_len :: nat
  lexeme_len :: nat
  lexeme_max :: nat
  lexeme :: string
  lexeme_ptr :: "nat option"
  mem :: heap

text \<open>\<open>struct result\<close> of lexer.c; its field \<open>token\<close> is \<open>res_token\<close> here.\<close>

record lex_result =
  success :: bool
  res_token :: token_type

definition set_fault :: "lexer \<Rightarrow> lexer" where
  "set_fault l = l\<lparr>mem := (mem l)\<lparr>fault := True\<rparr>\<rparr>"

definition size_sub :: "nat \<Rightarrow> nat \<Rightarrow> nat" where
  "size_sub a b = (a + 2 ^ 64 - b) mod 2 ^ 64"

definition QUOTE :: char where "QUOTE = CHR 0x27"
definition BACKSLASH :: char where "BACKSLASH = CHR 0x5C"
definition NEWLINE :: char where "NEWLINE = CHR 0x0A"

text \<open>
  \<open>peek\<close> of lexer.c reads the byte at the cursor and does not look at \<open>input_len\<close>. The
  read is inside the object where \<open>readable\<close> holds, and an invalid access otherwise. Every
  function below that reads at a cursor it has not read at before tests \<open>readable\<close> first,
  and where the test fails it sets \<open>fault\<close> and leaves.
\<close>

definition readable :: "lexer \<Rightarrow> bool" where
  "readable l \<longleftrightarrow> input_pos l < length (input l)"

definition lex_peek :: "lexer \<Rightarrow> char" where
  "lex_peek l = input l ! input_pos l"

definition advance :: "lexer \<Rightarrow> lexer" where
  "advance l = l\<lparr>input_pos := Suc (input_pos l)\<rparr>"

definition grow :: "lexer \<Rightarrow> bool \<times> lexer" where
  "grow l =
     (if error l then (False, l)
      else if lexeme_max l \<le> lexeme_len l then
        (let l1 = l\<lparr>lexeme_max := (lexeme_max l * 2) mod 2 ^ 64\<rparr>;
             (ptr, h) = mem_realloc (lexeme_ptr l1) (lexeme_max l1) (mem l1)
         in case ptr of
              None \<Rightarrow> (False, l1\<lparr>error := True, mem := h\<rparr>)
            | Some a \<Rightarrow> (True, l1\<lparr>lexeme_ptr := Some a, mem := h\<rparr>))
      else (True, l))"

text \<open>\<open>l->lexeme[l->lexeme_len++] = c\<close>\<close>

definition store :: "char \<Rightarrow> lexer \<Rightarrow> lexer" where
  "store c l =
     (case lexeme_ptr l of
        None \<Rightarrow> set_fault l
      | Some a \<Rightarrow> l\<lparr>lexeme := take (lexeme_len l) (lexeme l) @ [c],
                     lexeme_len := Suc (lexeme_len l)\<rparr>)"

definition lex_append :: "lexer \<Rightarrow> lexer" where
  "lex_append l =
     (case grow l of
        (True, l1) \<Rightarrow>
          if readable l1 then advance (store (lex_peek l1) l1) else advance (set_fault l1)
      | (False, l1) \<Rightarrow> advance l1)"

definition lex_fail :: lex_result where
  "lex_fail = \<lparr>success = False, res_token = TOKEN_INVALID\<rparr>"

text \<open>\<open>finish\<close> writes the terminator at index \<open>lexeme_len\<close>.\<close>

definition finish :: "lexer \<Rightarrow> token_type \<Rightarrow> lex_result \<times> lexer" where
  "finish l tok =
     (case grow l of
        (True, l1) \<Rightarrow>
          (\<lparr>success = True, res_token = tok\<rparr>,
           case lexeme_ptr l1 of
             None \<Rightarrow> set_fault l1
           | Some a \<Rightarrow> l1\<lparr>lexeme := take (lexeme_len l1) (lexeme l1)\<rparr>)
      | (False, l1) \<Rightarrow> (lex_fail, l1))"

definition is_end :: "lexer \<Rightarrow> bool" where
  "is_end l \<longleftrightarrow> input_pos l = input_len l"

definition is_punct :: "lexer \<Rightarrow> bool" where
  "is_punct l \<longleftrightarrow> lex_peek l \<in> set ''(){}[].,:?+-*/%=<>!''"

text \<open>The classification functions of \<open>ctype.h\<close>, in the C locale.\<close>

definition isspace :: "char \<Rightarrow> bool" where
  "isspace c \<longleftrightarrow> c \<in> set [CHR '' '', CHR 0x09, CHR 0x0A, CHR 0x0B, CHR 0x0C, CHR 0x0D]"

definition isalpha :: "char \<Rightarrow> bool" where
  "isalpha c \<longleftrightarrow> c \<in> set ''abcdefghijklmnopqrstuvwxyzABCDEFGHIJKLMNOPQRSTUVWXYZ''"

definition isdigit :: "char \<Rightarrow> bool" where
  "isdigit c \<longleftrightarrow> c \<in> set ''0123456789''"

definition isxdigit :: "char \<Rightarrow> bool" where
  "isxdigit c \<longleftrightarrow> c \<in> set ''0123456789abcdefABCDEF''"

definition is_space :: "lexer \<Rightarrow> bool" where
  "is_space l \<longleftrightarrow> isspace (lex_peek l)"

definition is_symbol :: "lexer \<Rightarrow> bool" where
  "is_symbol l \<longleftrightarrow> isalpha (lex_peek l) \<or> lex_peek l = CHR ''_''"

definition is_bdigit :: "lexer \<Rightarrow> bool" where
  "is_bdigit l \<longleftrightarrow> lex_peek l = CHR ''0'' \<or> lex_peek l = CHR ''1''"

definition is_odigit :: "lexer \<Rightarrow> bool" where
  "is_odigit l \<longleftrightarrow> lex_peek l \<in> set ''01234567''"

definition is_xdigit :: "lexer \<Rightarrow> bool" where
  "is_xdigit l \<longleftrightarrow> isxdigit (lex_peek l)"

definition is_digit :: "lexer \<Rightarrow> bool" where
  "is_digit l \<longleftrightarrow> isdigit (lex_peek l)"

definition is_quote :: "lexer \<Rightarrow> bool" where
  "is_quote l \<longleftrightarrow> lex_peek l = QUOTE"

definition lex_match :: "lexer \<Rightarrow> char \<Rightarrow> bool \<times> lexer" where
  "lex_match l c =
     (if \<not> readable l then (False, set_fault l)
      else if lex_peek l = c then (True, advance l) else (False, l))"

definition lex_accept :: "lexer \<Rightarrow> char \<Rightarrow> bool \<times> lexer" where
  "lex_accept l c =
     (if \<not> readable l then (False, set_fault l)
      else if lex_peek l = c then (True, lex_append l) else (False, l))"


text \<open>Facts about the cursor, for the termination proofs of the scanning loops.\<close>

lemma set_fault_cursor [simp]:
  "input_pos (set_fault l) = input_pos l" "input (set_fault l) = input l"
  "input_len (set_fault l) = input_len l"
  by (simp_all add: set_fault_def)

lemma grow_cursor [simp]:
  "input_pos (snd (grow l)) = input_pos l" "input (snd (grow l)) = input l"
  "input_len (snd (grow l)) = input_len l"
  by (auto simp: grow_def Let_def split: prod.splits option.splits)

lemma store_cursor [simp]:
  "input_pos (store c l) = input_pos l" "input (store c l) = input l"
  "input_len (store c l) = input_len l"
  by (auto simp: store_def set_fault_def split: option.splits)

lemma advance_cursor [simp]:
  "input_pos (advance l) = Suc (input_pos l)" "input (advance l) = input l"
  "input_len (advance l) = input_len l"
  by (simp_all add: advance_def)

lemma lex_append_cursor [simp]:
  "input_pos (lex_append l) = Suc (input_pos l)" "input (lex_append l) = input l"
  "input_len (lex_append l) = input_len l"
proof -
  obtain b l1 where g: "grow l = (b, l1)" by (cases "grow l")
  have "input_pos l1 = input_pos l" "input l1 = input l" "input_len l1 = input_len l"
    using grow_cursor [of l] g by simp_all
  then show "input_pos (lex_append l) = Suc (input_pos l)" "input (lex_append l) = input l"
    "input_len (lex_append l) = input_len l"
    using g by (cases b; simp add: lex_append_def)+
qed

subsection \<open>Keywords and identifiers\<close>

text \<open>The array of keywords local to \<open>symbol\<close>, without its NULL sentinel: prefix flag, name,
  token.\<close>

definition keyword_table :: "(bool \<times> string \<times> token_type) list" where
  "keyword_table =
    [(False, ''and'', TOKEN_AND),
     (False, ''break'', TOKEN_BREAK),
     (False, ''continue'', TOKEN_CONTINUE),
     (True, ''elif'', TOKEN_ELIF),
     (True, ''else'', TOKEN_ELSE),
     (True, ''endforeach'', TOKEN_ENDFOREACH),
     (False, ''endif'', TOKEN_ENDIF),
     (True, ''false'', TOKEN_FALSE),
     (False, ''foreach'', TOKEN_FOREACH),
     (True, ''if'', TOKEN_IF),
     (False, ''in'', TOKEN_IN),
     (False, ''not'', TOKEN_NOT),
     (False, ''or'', TOKEN_OR),
     (False, ''true'', TOKEN_TRUE)]"

text \<open>
  The first loop of \<open>symbol\<close>. The first argument is the rest of the table from index
  \<open>i\<close> on, the second is \<open>j\<close>. The result is \<open>Some token\<close> where the C loop returns
  \<open>finish(l, token)\<close> and \<open>None\<close> where it leaves the loop (by \<open>break\<close> or at the sentinel).
  The C code reads the character \<open>j\<close> of the name without comparing \<open>j\<close> with the length of the
  name; \<open>j\<close> can be carried over from a longer name (prefix flag set), and a read
  beyond the terminator of the name is a fault.
\<close>

function keyword_loop ::
  "(bool \<times> string \<times> token_type) list \<Rightarrow> nat \<Rightarrow> lexer \<Rightarrow> token_type option \<times> lexer" where
  "keyword_loop [] j l = (None, l)"
| "keyword_loop ((prefix, name, tok) # ks) j l =
     (if length name < j then (None, set_fault l)
      else if j = length name then
        (if is_end l then (Some tok, l)
         else if \<not> readable l then (None, set_fault l)
         else if is_space l \<or> is_punct l then (Some tok, l) else (None, l))
      else
        (case lex_accept l (name ! j) of
           (True, l1) \<Rightarrow> keyword_loop ((prefix, name, tok) # ks) (Suc j) l1
         | (False, l1) \<Rightarrow> keyword_loop ks (if prefix then j else 0) l1))"
  by pat_completeness auto
termination
  by (relation "measures [\<lambda>(ks, j, l). length ks,
                          \<lambda>(ks, j, l). Suc (length (fst (snd (hd ks)))) - j]") auto

declare keyword_loop.simps [simp del]

text \<open>\<open>while (is_symbol(l) || is_digit(l)) append(l);\<close>\<close>

function identifier_loop :: "lexer \<Rightarrow> lexer" where
  "identifier_loop l =
     (if \<not> readable l then set_fault l
      else if is_symbol l \<or> is_digit l then identifier_loop (lex_append l) else l)"
  by pat_completeness auto
termination
  by (relation "measure (\<lambda>l. length (input l) - input_pos l)") (auto simp: readable_def)

declare identifier_loop.simps [simp del]

definition symbol :: "lexer \<Rightarrow> lex_result \<times> lexer" where
  "symbol l =
     (case keyword_loop keyword_table 0 l of
        (Some tok, l1) \<Rightarrow> finish l1 tok
      | (None, l1) \<Rightarrow> finish (identifier_loop l1) TOKEN_IDENTIFIER)"

subsection \<open>Strings\<close>

text \<open>\<open>while (!is_end(l) && !is_quote(l)) append(l);\<close>\<close>

function text_loop :: "lexer \<Rightarrow> lexer" where
  "text_loop l =
     (if is_end l then l
      else if \<not> readable l then set_fault l
      else if is_quote l then l
      else text_loop (lex_append l))"
  by pat_completeness auto
termination
  by (relation "measure (\<lambda>l. length (input l) - input_pos l)") (auto simp: readable_def)

declare text_loop.simps [simp del]

text \<open>\<open>while (i < 3 && is_quote(l)) { append(l); i++; }\<close>\<close>

function quote_loop :: "nat \<Rightarrow> lexer \<Rightarrow> nat \<times> lexer" where
  "quote_loop i l =
     (if i < 3 then
        (if \<not> readable l then (i, set_fault l)
         else if is_quote l then quote_loop (Suc i) (lex_append l) else (i, l))
      else (i, l))"
  by pat_completeness auto
termination
  by (relation "measure (\<lambda>(i, l). 3 - i)") auto

declare quote_loop.simps [simp del]

lemma text_loop_cursor:
  "input_pos l \<le> input_pos (text_loop l) \<and> input (text_loop l) = input l"
proof (induction l rule: text_loop.induct)
  case (1 l)
  show ?case
  proof (cases "\<not> is_end l \<and> readable l \<and> \<not> is_quote l")
    case True
    with "1.IH" have "input_pos (lex_append l) \<le> input_pos (text_loop (lex_append l))"
      and "input (text_loop (lex_append l)) = input (lex_append l)" by simp_all
    moreover have "text_loop l = text_loop (lex_append l)"
      using True by (subst text_loop.simps) simp
    ultimately show ?thesis by simp
  next
    case False
    then have "text_loop l = l \<or> text_loop l = set_fault l"
      by (subst (1 2) text_loop.simps) auto
    then show ?thesis by auto
  qed
qed

lemma quote_loop_cursor:
  "input_pos l \<le> input_pos (snd (quote_loop i l)) \<and> input (snd (quote_loop i l)) = input l"
proof (induction i l rule: quote_loop.induct)
  case (1 i l)
  show ?case
  proof (cases "i < 3 \<and> readable l \<and> is_quote l")
    case True
    with "1.IH" have "input_pos (lex_append l) \<le> input_pos (snd (quote_loop (Suc i) (lex_append l)))"
      and "input (snd (quote_loop (Suc i) (lex_append l))) = input (lex_append l)"
      by simp_all
    moreover have "quote_loop i l = quote_loop (Suc i) (lex_append l)"
      using True by (subst quote_loop.simps) simp
    ultimately show ?thesis by simp
  next
    case False
    then have "quote_loop i l = (i, l) \<or> quote_loop i l = (i, set_fault l)"
      by (subst (1 2) quote_loop.simps) auto
    then show ?thesis by auto
  qed
qed

text \<open>
  \<open>multiline_string\<close>. The loop tests \<open>!is_end(l)\<close>, that is \<open>input_pos != input_len\<close>.
  The \<open>append\<close> that ends an iteration is not guarded: at the end of the input it moves
  the cursor to \<open>input_len + 1\<close>, the loop test still holds and the loop goes on reading
  until it leaves the object. That read is the fault of the second branch.
\<close>

function multiline_string :: "lexer \<Rightarrow> lex_result \<times> lexer" where
  "multiline_string l =
     (if is_end l then (lex_fail, l)
      else if \<not> readable l then (lex_fail, set_fault l)
      else
        (case quote_loop 0 (text_loop l) of (i, l2) \<Rightarrow>
           if i = 3 then
             finish (l2\<lparr>lexeme_len := size_sub (lexeme_len l2) 3\<rparr>) TOKEN_MULTILINE_STRING
           else multiline_string (lex_append l2)))"
  by pat_completeness auto
termination
proof (relation "measure (\<lambda>l. Suc (length (input l)) - input_pos l)", goal_cases)
  case 1
  show ?case by simp
next
  case (2 l i l2)
  have "input_pos l \<le> input_pos (text_loop l)" "input (text_loop l) = input l"
    using text_loop_cursor [of l] by simp_all
  moreover have "input_pos (text_loop l) \<le> input_pos l2" "input l2 = input (text_loop l)"
    using quote_loop_cursor [of "text_loop l" 0] 2 by (simp_all add: prod_eq_iff)
  ultimately show ?case using 2 by (simp add: readable_def)
qed

declare multiline_string.simps [simp del]

text \<open>\<open>string\<close> of lexer.c.\<close>

definition lex_string :: "lexer \<Rightarrow> lex_result \<times> lexer" where
  "lex_string l =
     (let (_, l1) = lex_match l QUOTE in
      case lex_match l1 QUOTE of
        (True, l2) \<Rightarrow>
          (case lex_match l2 QUOTE of
             (True, l3) \<Rightarrow> multiline_string l3
           | (False, l3) \<Rightarrow> finish l3 TOKEN_STRING)
      | (False, l2) \<Rightarrow>
          (let l3 = text_loop l2 in
           case lex_match l3 QUOTE of
             (False, l4) \<Rightarrow> (lex_fail, l4)
           | (True, l4) \<Rightarrow> finish l4 TOKEN_STRING))"


subsection \<open>Numbers\<close>

text \<open>The function pointer \<open>cond\<close> of \<open>number\<close> is determined by the token type chosen.\<close>

definition cond :: "token_type \<Rightarrow> lexer \<Rightarrow> bool" where
  "cond tok l =
     (if tok = TOKEN_BIN_NUMBER then is_bdigit l
      else if tok = TOKEN_OCT_NUMBER then is_odigit l
      else if tok = TOKEN_HEX_NUMBER then is_xdigit l
      else is_digit l)"

text \<open>\<open>while (cond(l)) append(l);\<close>\<close>

function digit_loop :: "token_type \<Rightarrow> lexer \<Rightarrow> lexer" where
  "digit_loop tok l =
     (if \<not> readable l then set_fault l
      else if cond tok l then digit_loop tok (lex_append l) else l)"
  by pat_completeness auto
termination
  by (relation "measure (\<lambda>(tok, l). length (input l) - input_pos l)") (auto simp: readable_def)

declare digit_loop.simps [simp del]

text \<open>The test \<open>is_end(l) || is_space(l) || is_punct(l)\<close> and the \<open>return\<close> on each side of it.\<close>

definition number_end :: "token_type \<Rightarrow> lexer \<Rightarrow> lex_result \<times> lexer" where
  "number_end tok l =
     (let l1 = digit_loop tok l in
      if is_end l1 then finish l1 tok
      else if \<not> readable l1 then (lex_fail, set_fault l1)
      else if is_space l1 \<or> is_punct l1 then finish l1 tok else (lex_fail, l1))"

text \<open>\<open>number\<close> of lexer.c; \<open>number_end\<close> is its part after the first \<open>if\<close>.\<close>

definition lex_number :: "lexer \<Rightarrow> lex_result \<times> lexer" where
  "lex_number l =
     (case lex_accept l (CHR ''0'') of
        (True, l1) \<Rightarrow>
          if \<not> readable l1 then (lex_fail, set_fault l1)
          else
            (let tok = (if lex_peek l1 = CHR ''b'' then TOKEN_BIN_NUMBER
                        else if lex_peek l1 = CHR ''o'' then TOKEN_OCT_NUMBER
                        else if lex_peek l1 = CHR ''x'' then TOKEN_HEX_NUMBER
                        else TOKEN_DEC_NUMBER)
             in if tok \<noteq> TOKEN_DEC_NUMBER then
                  (let l2 = advance l1 in
                   if \<not> readable l2 then (lex_fail, set_fault l2)
                   else if \<not> cond tok l2 then (lex_fail, l2)
                   else number_end tok (l2\<lparr>lexeme_len := size_sub (lexeme_len l2) 1\<rparr>))
                else number_end tok l1)
      | (False, l1) \<Rightarrow> number_end TOKEN_DEC_NUMBER l1)"

subsection \<open>Punctuation and the main switch\<close>

definition maybe_eq :: "lexer \<Rightarrow> token_type \<Rightarrow> token_type \<Rightarrow> lex_result \<times> lexer" where
  "maybe_eq l if_eq if_not_eq =
     (case lex_accept (lex_append l) (CHR ''='') of
        (True, l1) \<Rightarrow> finish l1 if_eq
      | (False, l1) \<Rightarrow> finish l1 if_not_eq)"

definition append_finish :: "lexer \<Rightarrow> token_type \<Rightarrow> lex_result \<times> lexer" where
  "append_finish l tok = finish (lex_append l) tok"

text \<open>\<open>while (!is_end(l) && is_space(l)) advance(l);\<close>\<close>

function space_loop :: "lexer \<Rightarrow> lexer" where
  "space_loop l =
     (if is_end l then l
      else if \<not> readable l then set_fault l
      else if is_space l then space_loop (advance l) else l)"
  by pat_completeness auto
termination
  by (relation "measure (\<lambda>l. length (input l) - input_pos l)") (auto simp: readable_def)

declare space_loop.simps [simp del]

text \<open>\<open>while (!is_end(l) && peek(l) != '\n') advance(l);\<close>\<close>

function comment_loop :: "lexer \<Rightarrow> lexer" where
  "comment_loop l =
     (if is_end l then l
      else if \<not> readable l then set_fault l
      else if lex_peek l = NEWLINE then l
      else comment_loop (advance l))"
  by pat_completeness auto
termination
  by (relation "measure (\<lambda>l. length (input l) - input_pos l)") (auto simp: readable_def)

declare comment_loop.simps [simp del]

lemma space_loop_cursor:
  "input_pos l \<le> input_pos (space_loop l) \<and> input (space_loop l) = input l"
proof (induction l rule: space_loop.induct)
  case (1 l)
  show ?case
  proof (cases "\<not> is_end l \<and> readable l \<and> is_space l")
    case True
    with "1.IH" have "input_pos (advance l) \<le> input_pos (space_loop (advance l))"
      and "input (space_loop (advance l)) = input (advance l)" by simp_all
    moreover have "space_loop l = space_loop (advance l)"
      using True by (subst space_loop.simps) simp
    ultimately show ?thesis by simp
  next
    case False
    then have "space_loop l = l \<or> space_loop l = set_fault l"
      by (subst (1 2) space_loop.simps) auto
    then show ?thesis by auto
  qed
qed

lemma comment_loop_cursor:
  "input_pos l \<le> input_pos (comment_loop l) \<and> input (comment_loop l) = input l"
proof (induction l rule: comment_loop.induct)
  case (1 l)
  show ?case
  proof (cases "\<not> is_end l \<and> readable l \<and> lex_peek l \<noteq> NEWLINE")
    case True
    with "1.IH" have "input_pos (advance l) \<le> input_pos (comment_loop (advance l))"
      and "input (comment_loop (advance l)) = input (advance l)" by simp_all
    moreover have "comment_loop l = comment_loop (advance l)"
      using True by (subst comment_loop.simps) simp
    ultimately show ?thesis by simp
  next
    case False
    then have "comment_loop l = l \<or> comment_loop l = set_fault l"
      by (subst (1 2) comment_loop.simps) auto
    then show ?thesis by auto
  qed
qed

lemma comment_loop_hash:
  assumes "\<not> is_end l" and "readable l" and "lex_peek l = CHR ''#''"
  shows "input_pos l < input_pos (comment_loop l)"
proof -
  have "comment_loop l = comment_loop (advance l)"
    using assms by (subst comment_loop.simps) (simp add: NEWLINE_def)
  then show ?thesis using comment_loop_cursor [of "advance l"] by simp
qed

text \<open>
  The \<open>for (;;)\<close> loop of \<open>do_lex\<close>. The result is \<open>True\<close> where the C loop returns
  \<open>finish(l, TOKEN_END)\<close> and \<open>False\<close> where it leaves the loop by \<open>break\<close>.
\<close>

function blank_loop :: "lexer \<Rightarrow> bool \<times> lexer" where
  "blank_loop l =
     (let l1 = space_loop l in
      if is_end l1 then (True, l1)
      else if \<not> readable l1 then (False, set_fault l1)
      else
        (case lex_match l1 BACKSLASH of
           (True, l2) \<Rightarrow> blank_loop l2
         | (False, l2) \<Rightarrow>
             if lex_peek l2 \<noteq> CHR ''#'' then (False, l2) else blank_loop (comment_loop l2)))"
  by pat_completeness auto
termination
proof (relation "measure (\<lambda>l. length (input l) - input_pos l)", goal_cases)
  case 1
  show ?case by simp
next
  case (2 l l1 b l2)
  have c: "input_pos l \<le> input_pos l1" "input l1 = input l"
    using space_loop_cursor [of l] 2 by simp_all
  have "l2 = advance l1"
    using 2 by (auto simp: lex_match_def split: if_splits)
  then show ?case using c 2 by (simp add: readable_def)
next
  case (3 l l1 b l2)
  have c: "input_pos l \<le> input_pos l1" "input l1 = input l"
    using space_loop_cursor [of l] 3 by simp_all
  have eq: "l2 = l1" using 3 by (auto simp: lex_match_def split: if_splits)
  have "input_pos l2 < input_pos (comment_loop l2)"
    using 3 eq by (intro comment_loop_hash) simp_all
  moreover have "input (comment_loop l2) = input l2"
    using comment_loop_cursor [of l2] by simp
  ultimately show ?case using c eq 3 by (simp add: readable_def)
qed

declare blank_loop.simps [simp del]

definition do_lex :: "lexer \<Rightarrow> lex_result \<times> lexer" where
  "do_lex l =
     (case blank_loop (l\<lparr>lexeme_len := 0\<rparr>) of
        (True, l1) \<Rightarrow> finish l1 TOKEN_END
      | (False, l1) \<Rightarrow>
          if \<not> readable l1 then (lex_fail, set_fault l1)
          else if is_symbol l1 then symbol l1
          else
            (let c = lex_peek l1 in
             if c = CHR ''('' then append_finish l1 TOKEN_L_PAREN
             else if c = CHR '')'' then append_finish l1 TOKEN_R_PAREN
             else if c = CHR ''{'' then append_finish l1 TOKEN_L_BRACE
             else if c = CHR ''}'' then append_finish l1 TOKEN_R_BRACE
             else if c = CHR ''['' then append_finish l1 TOKEN_L_BRACKET
             else if c = CHR '']'' then append_finish l1 TOKEN_R_BRACKET
             else if c = CHR ''.'' then append_finish l1 TOKEN_DOT
             else if c = CHR '','' then append_finish l1 TOKEN_COMMA
             else if c = CHR '':'' then append_finish l1 TOKEN_COLON
             else if c = CHR ''?'' then append_finish l1 TOKEN_TERNARY
             else if c = CHR ''+'' then maybe_eq l1 TOKEN_ADD_ASSIGN TOKEN_PLUS
             else if c = CHR ''-'' then maybe_eq l1 TOKEN_SUB_ASSIGN TOKEN_MINUS
             else if c = CHR ''*'' then maybe_eq l1 TOKEN_MUL_ASSIGN TOKEN_STAR
             else if c = CHR ''/'' then maybe_eq l1 TOKEN_DIV_ASSIGN TOKEN_SLASH
             else if c = CHR ''%'' then maybe_eq l1 TOKEN_MOD_ASSIGN TOKEN_PERCENT
             else if c = CHR ''<'' then maybe_eq l1 TOKEN_LE TOKEN_LT
             else if c = CHR ''>'' then maybe_eq l1 TOKEN_GE TOKEN_GT
             else if c = CHR ''='' then maybe_eq l1 TOKEN_EQ TOKEN_ASSIGN
             else if c = CHR ''!'' then maybe_eq l1 TOKEN_NE TOKEN_INVALID
             else if c = QUOTE then lex_string l1
             else if isdigit c then lex_number l1
             else (lex_fail, l1)))"

text \<open>
  \<open>lexer_init\<close>: the result of \<open>mem_alloc\<close> is not tested. The input is the buffer of the
  string (NULL for the null string) and its \<open>length\<close> field.
\<close>

definition lexer_init :: "heap \<Rightarrow> cstring \<Rightarrow> lexer" where
  "lexer_init h s =
     (case mem_alloc (Buffer 128) h of (ptr, h1) \<Rightarrow>
        \<lparr>error = False,
         input = (case string_text s of None \<Rightarrow> [] | Some b \<Rightarrow> b),
         input_pos = 0, input_len = string_length s,
         lexeme_len = 0, lexeme_max = 128, lexeme = [], lexeme_ptr = ptr, mem = h1\<rparr>)"

text \<open>
  \<open>lexer_free\<close>: \<open>mem_free\<close> clears \<open>lexeme_max\<close> bytes of the block before releasing it,
  also when it is NULL. After a \<open>realloc\<close> that failed \<open>lexeme_max\<close> is twice the size of
  the block.
\<close>

definition lexer_free :: "lexer \<Rightarrow> heap" where
  "lexer_free l =
     (case lexeme_ptr l of
        None \<Rightarrow> (mem l)\<lparr>fault := True\<rparr>
      | Some a \<Rightarrow> mem_free a (mem_clear a (lexeme_max l) (mem l)))"

definition lex :: "lexer \<Rightarrow> token_type \<times> lexer" where
  "lex l =
     (case do_lex l of (res, l1) \<Rightarrow>
        if success res then (if error l1 then TOKEN_ERROR else res_token res, l1)
        else (TOKEN_ERROR, l1))"

section \<open>The syntax tree (ast.h, ast.c)\<close>

datatype ast_type =
    AST_EMPTY | AST_SEQUENCE | AST_ASSIGNMENT | AST_IF | AST_IF_CLAUSE | AST_FOREACH
  | AST_JUMP | AST_UNARY | AST_LOGICAL | AST_ARITHMETIC | AST_RELATIONAL | AST_MEMBER
  | AST_INDEX | AST_APPLICATION | AST_KEYWORD_ARG | AST_ID | AST_BOOLEAN | AST_NUMBER
  | AST_STRING | AST_ARRAY | AST_DICTIONARY | AST_KV

datatype ast_subtype =
    AST_NONE
  | AST_ASSIGN | AST_ADD_ASSIGN | AST_SUB_ASSIGN | AST_MUL_ASSIGN | AST_DIV_ASSIGN
  | AST_MOD_ASSIGN
  | AST_BREAK | AST_CONTINUE
  | AST_NOT | AST_PLUS | AST_MINUS
  | AST_OR | AST_AND | AST_TERNARY
  | AST_ADD | AST_SUB | AST_MUL | AST_DIV | AST_MOD
  | AST_EQ | AST_NE | AST_LT | AST_LE | AST_GT | AST_GE | AST_IN | AST_NOT_IN
  | AST_TRUE | AST_FALSE

text \<open>
  One constructor for each struct of ast.h. The first argument is the address of the
  node's block. A child pointer that can be NULL is an \<open>option\<close>; an intrusive list of
  children is a list. \<open>Ast\<close> is the bare \<open>struct ast\<close> (empty and jump nodes);
  \<open>Ast_binary\<close> carries its type (assignment, arithmetic, relational, logical).
\<close>

datatype ast =
    Ast nat ast_type ast_subtype
  | Ast_id nat cstring
  | Ast_seq nat "ast list"
  | Ast_if nat "ast list" "ast option"
  | Ast_if_clause nat ast ast
  | Ast_foreach nat "ast list" "ast option" "ast option"
  | Ast_unary nat ast_subtype ast
  | Ast_binary nat ast_type ast_subtype ast ast
  | Ast_ternary nat ast ast ast
  | Ast_member nat ast ast
  | Ast_index nat "ast option" ast
  | Ast_app nat "ast option" "ast list" "ast list"
  | Ast_kw_arg nat ast ast
  | Ast_array nat nat "ast list"
  | Ast_dict nat "ast list"
  | Ast_kv nat ast ast
  | Ast_string nat cstring
  | Ast_number nat int
  | Ast_boolean nat ast_subtype

text \<open>The inline function \<open>ast_type\<close> of ast.h (the datatype has taken the name).\<close>

fun ast_type_of :: "ast \<Rightarrow> ast_type" where
  "ast_type_of (Ast a t s) = t"
| "ast_type_of (Ast_id a n) = AST_ID"
| "ast_type_of (Ast_seq a xs) = AST_SEQUENCE"
| "ast_type_of (Ast_if a cs alt) = AST_IF"
| "ast_type_of (Ast_if_clause a c b) = AST_IF_CLAUSE"
| "ast_type_of (Ast_foreach a ids e b) = AST_FOREACH"
| "ast_type_of (Ast_unary a s e) = AST_UNARY"
| "ast_type_of (Ast_binary a t s l r) = t"
| "ast_type_of (Ast_ternary a c t e) = AST_LOGICAL"
| "ast_type_of (Ast_member a obj f) = AST_MEMBER"
| "ast_type_of (Ast_index a r i) = AST_INDEX"
| "ast_type_of (Ast_app a r xs ks) = AST_APPLICATION"
| "ast_type_of (Ast_kw_arg a i e) = AST_KEYWORD_ARG"
| "ast_type_of (Ast_array a n xs) = AST_ARRAY"
| "ast_type_of (Ast_dict a xs) = AST_DICTIONARY"
| "ast_type_of (Ast_kv a k v) = AST_KV"
| "ast_type_of (Ast_string a s) = AST_STRING"
| "ast_type_of (Ast_number a v) = AST_NUMBER"
| "ast_type_of (Ast_boolean a s) = AST_BOOLEAN"

text \<open>
  \<open>ast_free\<close>, with \<open>free_ast_list\<close>, \<open>ast_free_app\<close>, \<open>ast_free_foreach\<close> and
  \<open>ast_free_if\<close> inlined: the children first, in the order of the C code, then the block
  of the node. Where the C code hands a child pointer to \<open>ast_free\<close> without a test, a
  NULL child fails the assertion of \<open>ast_free\<close>, which is recorded as a fault.
\<close>

fun ast_free :: "ast \<Rightarrow> heap \<Rightarrow> heap" where
  "ast_free (Ast a t s) h = mem_free a h"
| "ast_free (Ast_id a n) h = mem_free a (string_free n h)"
| "ast_free (Ast_seq a xs) h = mem_free a (fold ast_free xs h)"
| "ast_free (Ast_if a cs alt) h =
     mem_free a (case alt of None \<Rightarrow> fold ast_free cs h
                 | Some e \<Rightarrow> ast_free e (fold ast_free cs h))"
| "ast_free (Ast_if_clause a c b) h = mem_free a (ast_free b (ast_free c h))"
| "ast_free (Ast_foreach a ids e b) h =
     mem_free a
       (let h1 = fold ast_free ids h;
            h2 = (case e of None \<Rightarrow> h1 | Some x \<Rightarrow> ast_free x h1)
        in case b of None \<Rightarrow> h2 | Some x \<Rightarrow> ast_free x h2)"
| "ast_free (Ast_unary a s e) h = mem_free a (ast_free e h)"
| "ast_free (Ast_binary a t s l r) h = mem_free a (ast_free r (ast_free l h))"
| "ast_free (Ast_ternary a c t e) h = mem_free a (ast_free e (ast_free t (ast_free c h)))"
| "ast_free (Ast_member a obj f) h = mem_free a (ast_free f (ast_free obj h))"
| "ast_free (Ast_index a r i) h =
     mem_free a (ast_free i (case r of None \<Rightarrow> h\<lparr>fault := True\<rparr> | Some x \<Rightarrow> ast_free x h))"
| "ast_free (Ast_app a r xs ks) h =
     mem_free a
       (fold ast_free ks (fold ast_free xs (case r of None \<Rightarrow> h | Some x \<Rightarrow> ast_free x h)))"
| "ast_free (Ast_kw_arg a i e) h = mem_free a (ast_free e (ast_free i h))"
| "ast_free (Ast_array a n xs) h = mem_free a (fold ast_free xs h)"
| "ast_free (Ast_dict a xs) h = mem_free a (fold ast_free xs h)"
| "ast_free (Ast_kv a k v) h = mem_free a (ast_free v (ast_free k h))"
| "ast_free (Ast_string a s) h = mem_free a (string_free s h)"
| "ast_free (Ast_number a v) h = mem_free a h"
| "ast_free (Ast_boolean a s) h = mem_free a h"


text \<open>
  \<open>ast_new\<close>: the type and subtype only select the size of the block. \<open>new_node\<close> is
  \<open>ast_new\<close> followed by the assignments to the fields of the new node.
\<close>

definition ast_new :: "heap \<Rightarrow> nat option \<times> heap" where
  "ast_new h = mem_alloc Node h"

definition new_node :: "(nat \<Rightarrow> ast) \<Rightarrow> heap \<Rightarrow> ast option \<times> heap" where
  "new_node f h = (case ast_new h of (None, h1) \<Rightarrow> (None, h1) | (Some a, h1) \<Rightarrow> (Some (f a), h1))"

definition ast_empty :: "heap \<Rightarrow> ast option \<times> heap" where
  "ast_empty = new_node (\<lambda>a. Ast a AST_EMPTY AST_NONE)"

definition ast_seq :: "heap \<Rightarrow> ast option \<times> heap" where
  "ast_seq = new_node (\<lambda>a. Ast_seq a [])"

definition ast_binary :: "ast_type \<Rightarrow> ast_subtype \<Rightarrow> ast \<Rightarrow> ast \<Rightarrow> heap \<Rightarrow> ast option \<times> heap" where
  "ast_binary t s lhs rhs = new_node (\<lambda>a. Ast_binary a t s lhs rhs)"

definition ast_ternary :: "ast \<Rightarrow> ast \<Rightarrow> ast \<Rightarrow> heap \<Rightarrow> ast option \<times> heap" where
  "ast_ternary pred conseq alt = new_node (\<lambda>a. Ast_ternary a pred conseq alt)"

definition ast_if :: "heap \<Rightarrow> ast option \<times> heap" where
  "ast_if = new_node (\<lambda>a. Ast_if a [] None)"

definition ast_foreach :: "heap \<Rightarrow> ast option \<times> heap" where
  "ast_foreach = new_node (\<lambda>a. Ast_foreach a [] None None)"

definition ast_member :: "ast \<Rightarrow> ast \<Rightarrow> heap \<Rightarrow> ast option \<times> heap" where
  "ast_member obj field = new_node (\<lambda>a. Ast_member a obj field)"

definition ast_app :: "heap \<Rightarrow> ast option \<times> heap" where
  "ast_app = new_node (\<lambda>a. Ast_app a None [] [])"

text \<open>
  \<open>ast_id\<close> and \<open>ast_string\<close> duplicate the text once more; that allocation can fail and
  leave a node whose text is the null string. \<open>strlen\<close> of the NULL buffer is a fault.
\<close>

definition dup_text :: "cstring \<Rightarrow> heap \<Rightarrow> cstring \<times> heap" where
  "dup_text s h =
     (case string_text s of
        None \<Rightarrow> (NULL_STRING, h\<lparr>fault := True\<rparr>)
      | Some t \<Rightarrow> string_dup t h)"

definition ast_id :: "cstring \<Rightarrow> heap \<Rightarrow> ast option \<times> heap" where
  "ast_id s h =
     (case ast_new h of
        (None, h1) \<Rightarrow> (None, h1)
      | (Some a, h1) \<Rightarrow> (case dup_text s h1 of (name, h2) \<Rightarrow> (Some (Ast_id a name), h2)))"

definition ast_string :: "cstring \<Rightarrow> heap \<Rightarrow> ast option \<times> heap" where
  "ast_string s h =
     (case ast_new h of
        (None, h1) \<Rightarrow> (None, h1)
      | (Some a, h1) \<Rightarrow> (case dup_text s h1 of (v, h2) \<Rightarrow> (Some (Ast_string a v), h2)))"

definition ast_boolean :: "bool \<Rightarrow> heap \<Rightarrow> ast option \<times> heap" where
  "ast_boolean v = new_node (\<lambda>a. Ast_boolean a (if v then AST_TRUE else AST_FALSE))"

definition ast_number :: "int \<Rightarrow> heap \<Rightarrow> ast option \<times> heap" where
  "ast_number v = new_node (\<lambda>a. Ast_number a v)"

definition ast_array :: "heap \<Rightarrow> ast option \<times> heap" where
  "ast_array = new_node (\<lambda>a. Ast_array a 0 [])"

definition ast_dict :: "heap \<Rightarrow> ast option \<times> heap" where
  "ast_dict = new_node (\<lambda>a. Ast_dict a [])"

text \<open>\<open>list_append\<close> (list.h) on each of the child lists, and the assignments to a field
  of a node that already exists.\<close>

fun seq_append :: "ast \<Rightarrow> ast \<Rightarrow> ast" where
  "seq_append (Ast_seq a xs) x = Ast_seq a (xs @ [x])"
| "seq_append n x = n"

fun array_append :: "ast \<Rightarrow> ast \<Rightarrow> ast" where
  "array_append (Ast_array a c xs) x = Ast_array a c (xs @ [x])"
| "array_append n x = n"

fun array_set_count :: "ast \<Rightarrow> nat \<Rightarrow> ast" where
  "array_set_count (Ast_array a c xs) k = Ast_array a k xs"
| "array_set_count n k = n"

fun dict_append :: "ast \<Rightarrow> ast \<Rightarrow> ast" where
  "dict_append (Ast_dict a xs) x = Ast_dict a (xs @ [x])"
| "dict_append n x = n"

fun app_append_arg :: "ast \<Rightarrow> ast \<Rightarrow> ast" where
  "app_append_arg (Ast_app a r xs ks) x = Ast_app a r (xs @ [x]) ks"
| "app_append_arg n x = n"

fun app_append_kw :: "ast \<Rightarrow> ast \<Rightarrow> ast" where
  "app_append_kw (Ast_app a r xs ks) x = Ast_app a r xs (ks @ [x])"
| "app_append_kw n x = n"

fun set_ref :: "ast \<Rightarrow> ast \<Rightarrow> ast" where
  "set_ref (Ast_app a r xs ks) x = Ast_app a (Some x) xs ks"
| "set_ref (Ast_index a r i) x = Ast_index a (Some x) i"
| "set_ref n x = n"

fun if_append :: "ast \<Rightarrow> ast \<Rightarrow> ast" where
  "if_append (Ast_if a cs alt) c = Ast_if a (cs @ [c]) alt"
| "if_append n c = n"

fun if_set_alt :: "ast \<Rightarrow> ast \<Rightarrow> ast" where
  "if_set_alt (Ast_if a cs alt) e = Ast_if a cs (Some e)"
| "if_set_alt n e = n"

fun foreach_append :: "ast \<Rightarrow> ast \<Rightarrow> ast" where
  "foreach_append (Ast_foreach a ids e b) x = Ast_foreach a (ids @ [x]) e b"
| "foreach_append n x = n"

fun foreach_set_exp :: "ast \<Rightarrow> ast \<Rightarrow> ast" where
  "foreach_set_exp (Ast_foreach a ids e b) x = Ast_foreach a ids (Some x) b"
| "foreach_set_exp n x = n"

fun foreach_set_body :: "ast \<Rightarrow> ast \<Rightarrow> ast" where
  "foreach_set_body (Ast_foreach a ids e b) x = Ast_foreach a ids e (Some x)"
| "foreach_set_body n x = n"

text \<open>
  \<open>ast_if_clause\<close> allocates the clause and appends it to the clauses of the if node.
  The C function returns the clause, which its caller only compares with NULL; the model
  returns the if node with its new clause.
\<close>

definition ast_if_clause :: "ast \<Rightarrow> ast \<Rightarrow> ast \<Rightarrow> heap \<Rightarrow> ast option \<times> heap" where
  "ast_if_clause ifn pred conseq h =
     (case new_node (\<lambda>a. Ast_if_clause a pred conseq) h of
        (None, h1) \<Rightarrow> (None, h1)
      | (Some c, h1) \<Rightarrow> (Some (if_append ifn c), h1))"


section \<open>The parser (parser.c)\<close>

text \<open>
  \<open>struct parser\<close> (parser.h): the tokenizer, the lookahead token and whether it is valid.
\<close>

record parser =
  lexer :: lexer
  token :: token_type
  ready :: bool

text \<open>
  \<open>struct result\<close> of parser.c: the status with the member of the union that goes with
  it. \<open>with_ast\<close> turns a NULL node into \<open>NO_MEMORY\<close>.
\<close>

datatype result = SUCCESS ast | FAILURE cstring | NO_MEMORY

text \<open>
  \<open>struct parse_result\<close> (parser.h): \<open>success\<close> with the root node, or the error text.
\<close>

datatype parse_result = Parsed ast | Error cstring

text \<open>
  A grammar rule. The C functions recurse without a bound; the model takes a bound on
  the depth of the recursion and on the number of iterations of each loop, and \<open>None\<close>
  says that the bound was reached.
\<close>

type_synonym rule = "parser \<Rightarrow> (result \<times> parser) option"

definition heap_of :: "parser \<Rightarrow> heap" where
  "heap_of p = mem (lexer p)"

definition set_heap :: "heap \<Rightarrow> parser \<Rightarrow> parser" where
  "set_heap h p = p\<lparr>lexer := (lexer p)\<lparr>mem := h\<rparr>\<rparr>"

text \<open>A call of an allocating or releasing function of ast.c or common.c from the parser.\<close>

definition alloc :: "(heap \<Rightarrow> 'a \<times> heap) \<Rightarrow> parser \<Rightarrow> 'a \<times> parser" where
  "alloc f p = (case f (heap_of p) of (x, h) \<Rightarrow> (x, set_heap h p))"

definition release :: "ast \<Rightarrow> parser \<Rightarrow> parser" where
  "release a p = set_heap (ast_free a (heap_of p)) p"

definition peek :: "parser \<Rightarrow> token_type \<times> parser" where
  "peek p =
     (if \<not> ready p then
        (case lex (lexer p) of (t, l) \<Rightarrow> (t, p\<lparr>lexer := l, token := t, ready := True\<rparr>))
      else (token p, p))"

text \<open>\<open>accept_any\<close>: the variable arguments are a list of pairs; \<open>None\<close> is the result -1.\<close>

definition accept_any :: "parser \<Rightarrow> (token_type \<times> 'a) list \<Rightarrow> 'a option \<times> parser" where
  "accept_any p pairs =
     (case peek p of (t, p1) \<Rightarrow>
        (case find (\<lambda>(tok, r). tok = token p1) pairs of
           Some (tok, r) \<Rightarrow> (Some r, p1\<lparr>ready := False\<rparr>)
         | None \<Rightarrow> (None, p1)))"

definition accept :: "parser \<Rightarrow> token_type \<Rightarrow> bool \<times> parser" where
  "accept p tok =
     (case accept_any p [(tok, ())] of
        (Some u, p1) \<Rightarrow> (True, p1)
      | (None, p1) \<Rightarrow> (False, p1))"

definition with_ast :: "ast option \<Rightarrow> result" where
  "with_ast a = (case a of None \<Rightarrow> NO_MEMORY | Some x \<Rightarrow> SUCCESS x)"

text \<open>\<open>with_error\<close> prints into a buffer of 1024 bytes and duplicates it.\<close>

definition with_error :: "parser \<Rightarrow> string \<Rightarrow> result \<times> parser" where
  "with_error p msg = (case alloc (string_dup (take 1023 msg)) p of (s, p1) \<Rightarrow> (FAILURE s, p1))"

definition with_expected :: "parser \<Rightarrow> string \<Rightarrow> string \<Rightarrow> result \<times> parser" where
  "with_expected p place what = with_error p (place @ '': expected '' @ what)"

text \<open>
  \<open>expect\<close>: \<open>None\<close> where the C function returns the status \<open>SUCCESS\<close> (a result
  without a node), otherwise the failure.
\<close>

definition expect :: "parser \<Rightarrow> token_type \<Rightarrow> string \<Rightarrow> string \<Rightarrow> result option \<times> parser" where
  "expect p tok place what =
     (case accept p tok of
        (True, p1) \<Rightarrow> (None, p1)
      | (False, p1) \<Rightarrow> (case with_expected p1 place what of (r, p2) \<Rightarrow> (Some r, p2)))"

text \<open>
  The pattern \<open>if ((res = f(p)).status) { cleanup; return res; }\<close> followed by the rest of
  the function, which uses \<open>res.ast\<close>.
\<close>

definition sub ::
  "(result \<times> parser) option \<Rightarrow> (parser \<Rightarrow> parser) \<Rightarrow>
   (ast \<Rightarrow> parser \<Rightarrow> (result \<times> parser) option) \<Rightarrow> (result \<times> parser) option" where
  "sub m cleanup k =
     (case m of
        None \<Rightarrow> None
      | Some (r, p) \<Rightarrow>
          (case r of
             SUCCESS a \<Rightarrow> k a p
           | FAILURE e \<Rightarrow> Some (r, cleanup p)
           | NO_MEMORY \<Rightarrow> Some (r, cleanup p)))"

text \<open>The loop condition \<open>while (accept(p, TOKEN_COMMA) && peek(p) != close)\<close>.\<close>

definition comma_then ::
  "token_type \<Rightarrow> parser \<Rightarrow> (parser \<Rightarrow> 'a) \<Rightarrow> (parser \<Rightarrow> 'a) \<Rightarrow> 'a" where
  "comma_then close p again done =
     (case accept p TOKEN_COMMA of
        (True, p1) \<Rightarrow> (case peek p1 of (t, p2) \<Rightarrow> if t \<noteq> close then again p2 else done p2)
      | (False, p1) \<Rightarrow> done p1)"

text \<open>The text of the lexeme buffer, \<open>lexeme_len\<close> bytes long.\<close>

definition lexeme_text :: "parser \<Rightarrow> string" where
  "lexeme_text p = take (lexeme_len (lexer p)) (lexeme (lexer p))"

definition maybe_identifier :: "parser \<Rightarrow> result \<times> parser" where
  "maybe_identifier p =
     (case accept p TOKEN_IDENTIFIER of
        (True, p1) \<Rightarrow>
          (case alloc (string_dup_n (lexeme_text p1)) p1 of
             (NULL_STRING, p2) \<Rightarrow> (NO_MEMORY, p2)
           | (s, p2) \<Rightarrow>
               (case alloc (ast_id s) p2 of (node, p3) \<Rightarrow>
                  (with_ast node, set_heap (string_free s (heap_of p3)) p3)))
      | (False, p1) \<Rightarrow> (case alloc ast_empty p1 of (e, p2) \<Rightarrow> (with_ast e, p2)))"

subsection \<open>Literals\<close>

definition dictionary_end :: "ast \<Rightarrow> parser \<Rightarrow> (result \<times> parser) option" where
  "dictionary_end dict p =
     (case accept p TOKEN_R_BRACE of
        (False, p1) \<Rightarrow> Some (with_expected (release dict p1) ''dictionary'' ''closing brace'')
      | (True, p1) \<Rightarrow> Some (with_ast (Some dict), p1))"

text \<open>
  The \<open>do ... while\<close> loop of \<open>dictionary\<close> with the code after it. The label \<open>cleanup\<close>
  releases the key and the value that are not NULL, then the dictionary.
\<close>

primrec dictionary_loop :: "nat \<Rightarrow> rule \<Rightarrow> ast \<Rightarrow> rule" where
  "dictionary_loop 0 E dict p = None"
| "dictionary_loop (Suc n) E dict p =
     sub (E p) (release dict) (\<lambda>key p1.
       if ast_type_of key = AST_EMPTY then
         (case with_expected p1 ''dictionary'' ''key'' of (r, p2) \<Rightarrow>
            Some (r, release dict (release key p2)))
       else
         (case accept p1 TOKEN_COLON of
            (False, p2) \<Rightarrow>
              (case with_expected p2 ''dictionary'' ''colon'' of (r, p3) \<Rightarrow>
                 Some (r, release dict (release key p3)))
          | (True, p2) \<Rightarrow>
              sub (E p2) (\<lambda>q. release dict (release key q)) (\<lambda>val p3.
                if ast_type_of val = AST_EMPTY then
                  (case with_expected p3 ''dictionary'' ''value'' of (r, p4) \<Rightarrow>
                     Some (r, release dict (release val (release key p4))))
                else
                  (case alloc (new_node (\<lambda>a. Ast_kv a key val)) p3 of
                     (None, p4) \<Rightarrow>
                       Some (NO_MEMORY, release dict (release val (release key p4)))
                   | (Some kv, p4) \<Rightarrow>
                       comma_then TOKEN_R_BRACE p4
                         (dictionary_loop n E (dict_append dict kv))
                         (dictionary_end (dict_append dict kv))))))"

definition dictionary :: "nat \<Rightarrow> rule \<Rightarrow> rule" where
  "dictionary n E p =
     (case expect p TOKEN_L_BRACE ''dictionary'' ''opening brace'' of
        (Some r, p1) \<Rightarrow> Some (r, p1)
      | (None, p1) \<Rightarrow>
          (case alloc ast_dict p1 of
             (None, p2) \<Rightarrow> Some (NO_MEMORY, p2)
           | (Some dict, p2) \<Rightarrow>
               (case accept p2 TOKEN_R_BRACE of
                  (True, p3) \<Rightarrow> Some (with_ast (Some dict), p3)
                | (False, p3) \<Rightarrow> dictionary_loop n E dict p3)))"

definition array_end :: "ast \<Rightarrow> nat \<Rightarrow> parser \<Rightarrow> (result \<times> parser) option" where
  "array_end arr count p =
     (case accept p TOKEN_R_BRACKET of
        (False, p1) \<Rightarrow> Some (with_expected (release arr p1) ''array'' ''closing bracket'')
      | (True, p1) \<Rightarrow> Some (with_ast (Some (array_set_count arr count)), p1))"

primrec array_loop :: "nat \<Rightarrow> rule \<Rightarrow> ast \<Rightarrow> nat \<Rightarrow> rule" where
  "array_loop 0 E arr count p = None"
| "array_loop (Suc n) E arr count p =
     sub (E p) (release arr) (\<lambda>exp p1.
       if ast_type_of exp = AST_EMPTY then
         Some (with_expected (release exp (release arr p1)) ''array'' ''expression'')
       else
         comma_then TOKEN_R_BRACKET p1
           (array_loop n E (array_append arr exp) (Suc count))
           (array_end (array_append arr exp) (Suc count)))"

definition array :: "nat \<Rightarrow> rule \<Rightarrow> rule" where
  "array n E p =
     (case expect p TOKEN_L_BRACKET ''array'' ''opening bracket'' of
        (Some r, p1) \<Rightarrow> Some (r, p1)
      | (None, p1) \<Rightarrow>
          (case alloc ast_array p1 of
             (None, p2) \<Rightarrow> Some (NO_MEMORY, p2)
           | (Some arr, p2) \<Rightarrow>
               (case accept p2 TOKEN_R_BRACKET of
                  (True, p3) \<Rightarrow> Some (with_ast (Some arr), p3)
                | (False, p3) \<Rightarrow> array_loop n E arr 0 p3)))"

text \<open>\<open>string\<close> of parser.c.\<close>

definition parse_string :: "parser \<Rightarrow> result \<times> parser" where
  "parse_string p =
     (case expect p (token p) ''literal'' ''string literal'' of
        (Some r, p1) \<Rightarrow> (r, p1)
      | (None, p1) \<Rightarrow>
          (case alloc (string_dup_n (lexeme_text p1)) p1 of
             (NULL_STRING, p2) \<Rightarrow> (NO_MEMORY, p2)
           | (s, p2) \<Rightarrow>
               (case alloc (ast_string s) p2 of (str, p3) \<Rightarrow>
                  (with_ast str, set_heap (string_free s (heap_of p3)) p3))))"

text \<open>
  \<open>strtoll\<close> on the lexeme of a number token. The tokenizer leaves only digits of the
  base there, so white space, sign and prefix are not modelled: the value of the longest
  prefix of digits, limited to the largest 64-bit signed integer.
\<close>

definition digit_value :: "char \<Rightarrow> nat option" where
  "digit_value c =
     map_of [(CHR ''0'', 0), (CHR ''1'', 1), (CHR ''2'', 2), (CHR ''3'', 3), (CHR ''4'', 4),
             (CHR ''5'', 5), (CHR ''6'', 6), (CHR ''7'', 7), (CHR ''8'', 8), (CHR ''9'', 9),
             (CHR ''a'', 10), (CHR ''b'', 11), (CHR ''c'', 12), (CHR ''d'', 13), (CHR ''e'', 14),
             (CHR ''f'', 15), (CHR ''A'', 10), (CHR ''B'', 11), (CHR ''C'', 12), (CHR ''D'', 13),
             (CHR ''E'', 14), (CHR ''F'', 15)] c"

fun digits_value :: "nat \<Rightarrow> nat \<Rightarrow> string \<Rightarrow> nat" where
  "digits_value base acc [] = acc"
| "digits_value base acc (c # cs) =
     (case digit_value c of
        None \<Rightarrow> acc
      | Some v \<Rightarrow> if v < base then digits_value base (acc * base + v) cs else acc)"

definition strtoll :: "string \<Rightarrow> nat \<Rightarrow> int" where
  "strtoll s base = min (int (digits_value base 0 s)) (2 ^ 63 - 1)"

text \<open>\<open>number\<close> of parser.c.\<close>

definition parse_number :: "parser \<Rightarrow> result \<times> parser" where
  "parse_number p =
     (let digits = lexeme (lexer p) in
      case expect p (token p) ''literal'' ''integer constant'' of
        (Some r, p1) \<Rightarrow> (r, p1)
      | (None, p1) \<Rightarrow>
          (if token p1 = TOKEN_BIN_NUMBER then
             (case alloc (ast_number (strtoll digits 2)) p1 of (a, p2) \<Rightarrow> (with_ast a, p2))
           else if token p1 = TOKEN_OCT_NUMBER then
             (case alloc (ast_number (strtoll digits 8)) p1 of (a, p2) \<Rightarrow> (with_ast a, p2))
           else if token p1 = TOKEN_DEC_NUMBER then
             (case alloc (ast_number (strtoll digits 10)) p1 of (a, p2) \<Rightarrow> (with_ast a, p2))
           else if token p1 = TOKEN_HEX_NUMBER then
             (case alloc (ast_number (strtoll digits 16)) p1 of (a, p2) \<Rightarrow> (with_ast a, p2))
           else with_error p1 (''invalid number: '' @ [CHR 0x60] @ digits @ [QUOTE])))"

definition boolean :: "parser \<Rightarrow> result \<times> parser" where
  "boolean p =
     (case expect p (token p) ''literal'' ''boolean value'' of
        (Some r, p1) \<Rightarrow> (r, p1)
      | (None, p1) \<Rightarrow>
          (case alloc (ast_boolean (token p1 = TOKEN_TRUE)) p1 of (a, p2) \<Rightarrow> (with_ast a, p2)))"

definition literal :: "nat \<Rightarrow> rule \<Rightarrow> rule" where
  "literal n E p =
     (case peek p of (t, p1) \<Rightarrow>
        if t = TOKEN_TRUE \<or> t = TOKEN_FALSE then Some (boolean p1)
        else if t = TOKEN_DEC_NUMBER \<or> t = TOKEN_BIN_NUMBER \<or> t = TOKEN_OCT_NUMBER
                \<or> t = TOKEN_HEX_NUMBER then Some (parse_number p1)
        else if t = TOKEN_STRING \<or> t = TOKEN_MULTILINE_STRING then Some (parse_string p1)
        else if t = TOKEN_L_BRACKET then array n E p1
        else if t = TOKEN_L_BRACE then dictionary n E p1
        else (case alloc ast_empty p1 of (e, p2) \<Rightarrow> Some (with_ast e, p2)))"

subsection \<open>Primary and postfix expressions\<close>

definition primary :: "nat \<Rightarrow> rule \<Rightarrow> rule" where
  "primary n E p =
     (case peek p of (t, p0) \<Rightarrow>
        if t = TOKEN_L_PAREN then
          (case accept p0 TOKEN_L_PAREN of (b, p1) \<Rightarrow>
             sub (E p1) id (\<lambda>exp p2.
               if ast_type_of exp = AST_EMPTY then
                 Some (with_error (release exp p2) ''invalid expression'')
               else
                 (case accept p2 TOKEN_R_PAREN of
                    (False, p3) \<Rightarrow> Some (with_error (release exp p3) ''expected closing paren'')
                  | (True, p3) \<Rightarrow> Some (with_ast (Some exp), p3))))
        else if t = TOKEN_IDENTIFIER then Some (maybe_identifier p0)
        else literal n E p0)"

definition subscript :: "rule \<Rightarrow> rule" where
  "subscript E p =
     (case expect p TOKEN_L_BRACKET ''subscript'' ''opening bracket'' of
        (Some r, p1) \<Rightarrow> Some (r, p1)
      | (None, p1) \<Rightarrow>
          sub (E p1) id (\<lambda>index p2.
            if ast_type_of index = AST_EMPTY then
              Some (with_expected (release index p2) ''subscript'' ''expression'')
            else
              (case accept p2 TOKEN_R_BRACKET of
                 (False, p3) \<Rightarrow>
                   Some (with_expected (release index p3) ''subscript'' ''closing bracket'')
               | (True, p3) \<Rightarrow>
                   (case alloc (new_node (\<lambda>a. Ast_index a None index)) p3 of
                      (None, p4) \<Rightarrow> Some (NO_MEMORY, release index p4)
                    | (Some ast, p4) \<Rightarrow> Some (with_ast (Some ast), p4)))))"

definition application_end :: "ast \<Rightarrow> parser \<Rightarrow> (result \<times> parser) option" where
  "application_end app p =
     (case accept p TOKEN_R_PAREN of
        (False, p1) \<Rightarrow> Some (with_expected (release app p1) ''application'' ''closing paren'')
      | (True, p1) \<Rightarrow> Some (with_ast (Some app), p1))"

text \<open>
  The argument loop of \<open>application\<close> with the code after it; \<open>keywords\<close> of the C
  function is the flag \<open>kws\<close>.
\<close>

primrec application_loop :: "nat \<Rightarrow> rule \<Rightarrow> ast \<Rightarrow> bool \<Rightarrow> rule" where
  "application_loop 0 E app kws p = None"
| "application_loop (Suc n) E app kws p =
     sub (E p) (release app) (\<lambda>arg p1.
       if ast_type_of arg = AST_EMPTY then
         Some (with_expected (release arg (release app p1)) ''application'' ''argument'')
       else
         (case accept p1 TOKEN_COLON of (colon, p2) \<Rightarrow>
            if (kws \<or> colon) \<and> \<not> colon then
              Some (with_expected (release arg (release app p2)) ''application'' ''keyword'')
            else if \<not> (kws \<or> colon) then
              comma_then TOKEN_R_PAREN p2
                (application_loop n E (app_append_arg app arg) (kws \<or> colon))
                (application_end (app_append_arg app arg))
            else if ast_type_of arg \<noteq> AST_ID then
              Some (with_expected (release arg (release app p2)) ''application'' ''kwarg name'')
            else
              sub (E p2) (\<lambda>q. release arg (release app q)) (\<lambda>value p3.
                if ast_type_of value = AST_EMPTY then
                  Some (with_expected (release value (release arg (release app p3)))
                          ''application'' ''kwarg value'')
                else
                  (case alloc (new_node (\<lambda>a. Ast_kw_arg a arg value)) p3 of
                     (None, p4) \<Rightarrow>
                       Some (NO_MEMORY, release value (release arg (release app p4)))
                   | (Some kw, p4) \<Rightarrow>
                       comma_then TOKEN_R_PAREN p4
                         (application_loop n E (app_append_kw app kw) (kws \<or> colon))
                         (application_end (app_append_kw app kw))))))"

definition application :: "nat \<Rightarrow> rule \<Rightarrow> rule" where
  "application n E p =
     (case expect p TOKEN_L_PAREN ''application'' ''opening paren'' of
        (Some r, p1) \<Rightarrow> Some (r, p1)
      | (None, p1) \<Rightarrow>
          (case alloc ast_app p1 of
             (None, p2) \<Rightarrow> Some (NO_MEMORY, p2)
           | (Some app, p2) \<Rightarrow>
               (case accept p2 TOKEN_R_PAREN of
                  (True, p3) \<Rightarrow> Some (with_ast (Some app), p3)
                | (False, p3) \<Rightarrow> application_loop n E app False p3)))"

text \<open>
  The \<open>while\<close> loop of \<open>postfix\<close> with the code after it. A failure leaves the loop and
  releases \<open>ast\<close>. Where \<open>ast_member\<close> fails, \<open>right\<close> is not released.
\<close>

primrec postfix_loop :: "nat \<Rightarrow> rule \<Rightarrow> ast \<Rightarrow> rule" where
  "postfix_loop 0 E ast p = None"
| "postfix_loop (Suc n) E ast p =
     (case peek p of (t, p0) \<Rightarrow>
        if t = TOKEN_DOT then
          (case accept p0 TOKEN_DOT of (b, p1) \<Rightarrow>
             sub (primary n E p1) (release ast) (\<lambda>right p2.
               if ast_type_of right = AST_EMPTY then
                 (case with_error (release right p2) ''expected field name'' of (r, p3) \<Rightarrow>
                    Some (r, release ast p3))
               else if ast_type_of right \<noteq> AST_ID then
                 (case with_error (release right p2) ''field name must be plain id'' of
                    (r, p3) \<Rightarrow> Some (r, release ast p3))
               else
                 (case alloc (ast_member ast right) p2 of
                    (None, p3) \<Rightarrow> Some (NO_MEMORY, release ast p3)
                  | (Some ref, p3) \<Rightarrow> postfix_loop n E ref p3)))
        else if t = TOKEN_L_PAREN then
          sub (application n E p0) (release ast) (\<lambda>app p1. postfix_loop n E (set_ref app ast) p1)
        else if t = TOKEN_L_BRACKET then
          sub (subscript E p0) (release ast) (\<lambda>index p1. postfix_loop n E (set_ref index ast) p1)
        else Some (with_ast (Some ast), p0))"

definition postfix :: "nat \<Rightarrow> rule \<Rightarrow> rule" where
  "postfix n E p =
     (case primary n E p of
        None \<Rightarrow> None
      | Some (res, p1) \<Rightarrow>
          (case res of
             SUCCESS ast \<Rightarrow>
               if ast_type_of ast \<noteq> AST_ID then Some (res, p1) else postfix_loop n E ast p1
           | FAILURE e \<Rightarrow> Some (res, p1)
           | NO_MEMORY \<Rightarrow> Some (res, p1)))"


subsection \<open>Operators\<close>

definition unary :: "nat \<Rightarrow> rule \<Rightarrow> rule" where
  "unary n E p =
     (case accept_any p [(TOKEN_NOT, AST_NOT), (TOKEN_PLUS, AST_PLUS), (TOKEN_MINUS, AST_MINUS)] of
        (ret, p1) \<Rightarrow>
          sub (postfix n E p1) id (\<lambda>ast p2.
            if ast_type_of ast = AST_EMPTY then
              (if ret = None then Some (with_ast (Some ast), p2)
               else Some (with_expected (release ast p2) ''unary'' ''expression''))
            else
              (case ret of
                 None \<Rightarrow> Some (with_ast (Some ast), p2)
               | Some s \<Rightarrow>
                   (case alloc (new_node (\<lambda>a. Ast_unary a s ast)) p2 of
                      (None, p3) \<Rightarrow> Some (NO_MEMORY, release ast p3)
                    | (Some u, p3) \<Rightarrow> Some (with_ast (Some u), p3)))))"

text \<open>The \<open>while\<close> loop of \<open>multiplicative\<close> with the \<open>return\<close> after it.\<close>

primrec multiplicative_loop :: "nat \<Rightarrow> rule \<Rightarrow> ast \<Rightarrow> rule" where
  "multiplicative_loop 0 E ast p = None"
| "multiplicative_loop (Suc n) E ast p =
     (case accept_any p [(TOKEN_STAR, AST_MUL), (TOKEN_PERCENT, AST_MOD), (TOKEN_SLASH, AST_DIV)] of
        (None, p1) \<Rightarrow> Some (with_ast (Some ast), p1)
      | (Some ret, p1) \<Rightarrow>
          sub (unary n E p1) (release ast) (\<lambda>rhs p2.
            if ast_type_of rhs = AST_EMPTY then
              Some (with_expected (release rhs (release ast p2)) ''multiplicative'' ''expression'')
            else
              (case alloc (ast_binary AST_ARITHMETIC ret ast rhs) p2 of
                 (None, p3) \<Rightarrow> Some (NO_MEMORY, release rhs (release ast p3))
               | (Some b, p3) \<Rightarrow> multiplicative_loop n E b p3)))"

definition multiplicative :: "nat \<Rightarrow> rule \<Rightarrow> rule" where
  "multiplicative n E p = sub (unary n E p) id (\<lambda>ast p1. multiplicative_loop n E ast p1)"

primrec additive_loop :: "nat \<Rightarrow> rule \<Rightarrow> ast \<Rightarrow> rule" where
  "additive_loop 0 E ast p = None"
| "additive_loop (Suc n) E ast p =
     (case accept_any p [(TOKEN_PLUS, AST_ADD), (TOKEN_MINUS, AST_SUB)] of
        (None, p1) \<Rightarrow> Some (with_ast (Some ast), p1)
      | (Some ret, p1) \<Rightarrow>
          sub (multiplicative n E p1) (release ast) (\<lambda>rhs p2.
            if ast_type_of rhs = AST_EMPTY then
              Some (with_expected (release rhs (release ast p2)) ''additive'' ''expression'')
            else
              (case alloc (ast_binary AST_ARITHMETIC ret ast rhs) p2 of
                 (None, p3) \<Rightarrow> Some (NO_MEMORY, release rhs (release ast p3))
               | (Some b, p3) \<Rightarrow> additive_loop n E b p3)))"

definition additive :: "nat \<Rightarrow> rule \<Rightarrow> rule" where
  "additive n E p = sub (multiplicative n E p) id (\<lambda>ast p1. additive_loop n E ast p1)"

definition relational :: "nat \<Rightarrow> rule \<Rightarrow> rule" where
  "relational n E p =
     sub (additive n E p) id (\<lambda>lhs p1.
       case accept_any p1 [(TOKEN_LT, AST_LT), (TOKEN_LE, AST_LE), (TOKEN_GT, AST_GT),
                           (TOKEN_GE, AST_GE), (TOKEN_IN, AST_IN), (TOKEN_NOT, AST_NOT_IN)] of
         (None, p2) \<Rightarrow> Some (with_ast (Some lhs), p2)
       | (Some ret, p2) \<Rightarrow>
           (case (if ret = AST_NOT_IN then accept p2 TOKEN_IN else (True, p2)) of
              (False, p3) \<Rightarrow>
                Some (with_error (release lhs p3)
                        (''expected '' @ [CHR 0x60] @ ''in'' @ [QUOTE] @ '' after ''
                         @ [CHR 0x60] @ ''not'' @ [QUOTE]))
            | (True, p3) \<Rightarrow>
                sub (additive n E p3) (release lhs) (\<lambda>rhs p4.
                  if ast_type_of rhs = AST_EMPTY then
                    Some (with_expected (release rhs (release lhs p4))
                            ''relational'' ''expression'')
                  else
                    (case alloc (ast_binary AST_RELATIONAL ret lhs rhs) p4 of
                       (None, p5) \<Rightarrow> Some (NO_MEMORY, release rhs (release lhs p5))
                     | (Some b, p5) \<Rightarrow> Some (with_ast (Some b), p5)))))"

definition equality :: "nat \<Rightarrow> rule \<Rightarrow> rule" where
  "equality n E p =
     sub (relational n E p) id (\<lambda>lhs p1.
       case accept_any p1 [(TOKEN_EQ, AST_EQ), (TOKEN_NE, AST_NE)] of
         (None, p2) \<Rightarrow> Some (with_ast (Some lhs), p2)
       | (Some ret, p2) \<Rightarrow>
           sub (relational n E p2) (release lhs) (\<lambda>rhs p3.
             if ast_type_of rhs = AST_EMPTY then
               Some (with_expected (release rhs (release lhs p3)) ''equality'' ''expression'')
             else
               (case alloc (ast_binary AST_RELATIONAL ret lhs rhs) p3 of
                  (None, p4) \<Rightarrow> Some (NO_MEMORY, release rhs (release lhs p4))
                | (Some b, p4) \<Rightarrow> Some (with_ast (Some b), p4))))"

primrec logical_and_loop :: "nat \<Rightarrow> rule \<Rightarrow> ast \<Rightarrow> rule" where
  "logical_and_loop 0 E ast p = None"
| "logical_and_loop (Suc n) E ast p =
     (case accept p TOKEN_AND of
        (False, p1) \<Rightarrow> Some (with_ast (Some ast), p1)
      | (True, p1) \<Rightarrow>
          sub (equality n E p1) (release ast) (\<lambda>rhs p2.
            if ast_type_of rhs = AST_EMPTY then
              Some (with_expected (release rhs (release ast p2)) ''logical and'' ''expression'')
            else
              (case alloc (ast_binary AST_LOGICAL AST_AND ast rhs) p2 of
                 (None, p3) \<Rightarrow> Some (NO_MEMORY, release rhs (release ast p3))
               | (Some b, p3) \<Rightarrow> logical_and_loop n E b p3)))"

definition logical_and :: "nat \<Rightarrow> rule \<Rightarrow> rule" where
  "logical_and n E p = sub (equality n E p) id (\<lambda>ast p1. logical_and_loop n E ast p1)"

primrec logical_or_loop :: "nat \<Rightarrow> rule \<Rightarrow> ast \<Rightarrow> rule" where
  "logical_or_loop 0 E ast p = None"
| "logical_or_loop (Suc n) E ast p =
     (case accept p TOKEN_OR of
        (False, p1) \<Rightarrow> Some (with_ast (Some ast), p1)
      | (True, p1) \<Rightarrow>
          sub (logical_and n E p1) (release ast) (\<lambda>rhs p2.
            if ast_type_of rhs = AST_EMPTY then
              Some (with_expected (release rhs (release ast p2)) ''logical or'' ''expression'')
            else
              (case alloc (ast_binary AST_LOGICAL AST_OR ast rhs) p2 of
                 (None, p3) \<Rightarrow> Some (NO_MEMORY, release rhs (release ast p3))
               | (Some b, p3) \<Rightarrow> logical_or_loop n E b p3)))"

definition logical_or :: "nat \<Rightarrow> rule \<Rightarrow> rule" where
  "logical_or n E p = sub (logical_and n E p) id (\<lambda>ast p1. logical_or_loop n E ast p1)"

definition conditional :: "nat \<Rightarrow> rule \<Rightarrow> rule" where
  "conditional n E p =
     sub (logical_or n E p) id (\<lambda>exp p1.
       case accept p1 TOKEN_TERNARY of
         (False, p2) \<Rightarrow> Some (with_ast (Some exp), p2)
       | (True, p2) \<Rightarrow>
           sub (E p2) (release exp) (\<lambda>conseq p3.
             if ast_type_of conseq = AST_EMPTY then
               Some (with_expected (release conseq (release exp p3)) ''ternary'' ''true clause'')
             else
               (case accept p3 TOKEN_COLON of
                  (False, p4) \<Rightarrow>
                    Some (with_expected (release conseq (release exp p4)) ''ternary'' ''colon'')
                | (True, p4) \<Rightarrow>
                    sub (E p4) (\<lambda>q. release conseq (release exp q)) (\<lambda>alt p5.
                      if ast_type_of alt = AST_EMPTY then
                        Some (with_expected (release alt (release conseq (release exp p5)))
                                ''ternary'' ''false clause'')
                      else
                        (case alloc (ast_ternary exp conseq alt) p5 of
                           (None, p6) \<Rightarrow>
                             Some (NO_MEMORY, release alt (release conseq (release exp p6)))
                         | (Some t, p6) \<Rightarrow> Some (with_ast (Some t), p6))))))"

definition assignment :: "nat \<Rightarrow> rule \<Rightarrow> rule" where
  "assignment n E p =
     sub (conditional n E p) id (\<lambda>lhs p1.
       case accept_any p1 [(TOKEN_ASSIGN, AST_ASSIGN), (TOKEN_ADD_ASSIGN, AST_ADD_ASSIGN),
                           (TOKEN_SUB_ASSIGN, AST_SUB_ASSIGN), (TOKEN_MUL_ASSIGN, AST_MUL_ASSIGN),
                           (TOKEN_DIV_ASSIGN, AST_DIV_ASSIGN), (TOKEN_MOD_ASSIGN, AST_MOD_ASSIGN)] of
         (None, p2) \<Rightarrow> Some (with_ast (Some lhs), p2)
       | (Some ret, p2) \<Rightarrow>
           if ast_type_of lhs \<noteq> AST_ID then
             Some (with_error (release lhs p2) ''assignment target must be an id'')
           else
             sub (E p2) (release lhs) (\<lambda>rhs p3.
               if ast_type_of rhs = AST_EMPTY then
                 Some (with_expected (release rhs (release lhs p3)) ''assignment'' ''expression'')
               else
                 (case alloc (ast_binary AST_ASSIGNMENT ret lhs rhs) p3 of
                    (None, p4) \<Rightarrow> Some (NO_MEMORY, release rhs (release lhs p4))
                  | (Some b, p4) \<Rightarrow> Some (with_ast (Some b), p4))))"

text \<open>
  \<open>expression\<close> is declared before the functions that call it and defined as
  \<open>assignment\<close>: the recursion of the expression grammar goes through it.
\<close>

primrec expression :: "nat \<Rightarrow> rule" where
  "expression 0 p = None"
| "expression (Suc n) p = assignment n (expression n) p"

subsection \<open>Statements\<close>

text \<open>The loop over the bound variables of \<open>iteration\<close>; it returns the node with them.\<close>

primrec iteration_loop :: "nat \<Rightarrow> ast \<Rightarrow> rule" where
  "iteration_loop 0 foreach p = None"
| "iteration_loop (Suc n) foreach p =
     sub (Some (maybe_identifier p)) (release foreach) (\<lambda>ident p1.
       if ast_type_of ident \<noteq> AST_ID then
         Some (with_expected (release ident (release foreach p1)) ''foreach'' ''identifier'')
       else
         (case accept p1 TOKEN_COMMA of
            (True, p2) \<Rightarrow> iteration_loop n (foreach_append foreach ident) p2
          | (False, p2) \<Rightarrow> Some (SUCCESS (foreach_append foreach ident), p2)))"

definition iteration :: "nat \<Rightarrow> rule \<Rightarrow> rule \<Rightarrow> rule" where
  "iteration n S E p =
     (case expect p TOKEN_FOREACH ''foreach''
             ([CHR 0x60] @ ''foreach'' @ [QUOTE] @ '' keyword'') of
        (Some r, p1) \<Rightarrow> Some (r, p1)
      | (None, p1) \<Rightarrow>
          (case alloc ast_foreach p1 of
             (None, p2) \<Rightarrow> Some (NO_MEMORY, p2)
           | (Some foreach0, p2) \<Rightarrow>
               sub (iteration_loop n foreach0 p2) id (\<lambda>foreach1 p3.
                 case accept p3 TOKEN_COLON of
                   (False, p4) \<Rightarrow>
                     Some (with_expected (release foreach1 p4) ''foreach'' ''colon'')
                 | (True, p4) \<Rightarrow>
                     sub (E p4) (release foreach1) (\<lambda>exp p5.
                       if ast_type_of exp = AST_EMPTY then
                         Some (with_expected (release exp (release foreach1 p5))
                                 ''foreach'' ''expression'')
                       else
                         sub (S p5) (release (foreach_set_exp foreach1 exp)) (\<lambda>body p6.
                           case accept p6 TOKEN_ENDFOREACH of
                             (False, p7) \<Rightarrow>
                               Some (with_expected
                                       (release (foreach_set_body (foreach_set_exp foreach1 exp) body) p7)
                                       ''foreach'' ''endforeach'')
                           | (True, p7) \<Rightarrow>
                               Some (with_ast
                                       (Some (foreach_set_body (foreach_set_exp foreach1 exp) body)),
                                     p7))))))"

text \<open>
  The loop over the clauses of \<open>selection\<close>; it returns the node with its clauses
  (\<open>cond\<close> in the C function, \<open>ifnode\<close> here).
\<close>

primrec selection_loop :: "nat \<Rightarrow> rule \<Rightarrow> rule \<Rightarrow> ast \<Rightarrow> rule" where
  "selection_loop 0 S E ifnode p = None"
| "selection_loop (Suc n) S E ifnode p =
     sub (E p) (release ifnode) (\<lambda>pred p1.
       if ast_type_of pred = AST_EMPTY then
         Some (with_expected (release pred (release ifnode p1)) ''if'' ''predicate'')
       else
         sub (S p1) (\<lambda>q. release pred (release ifnode q)) (\<lambda>body p2.
           case alloc (ast_if_clause ifnode pred body) p2 of
             (None, p3) \<Rightarrow> Some (NO_MEMORY, release body (release pred (release ifnode p3)))
           | (Some ifnode1, p3) \<Rightarrow>
               (case accept p3 TOKEN_ELIF of
                  (True, p4) \<Rightarrow> selection_loop n S E ifnode1 p4
                | (False, p4) \<Rightarrow> Some (SUCCESS ifnode1, p4))))"

definition selection_end :: "ast \<Rightarrow> parser \<Rightarrow> (result \<times> parser) option" where
  "selection_end ifnode p =
     (case accept p TOKEN_ENDIF of
        (False, p1) \<Rightarrow> Some (with_expected (release ifnode p1) ''if'' ''endif'')
      | (True, p1) \<Rightarrow> Some (with_ast (Some ifnode), p1))"

definition selection :: "nat \<Rightarrow> rule \<Rightarrow> rule \<Rightarrow> rule" where
  "selection n S E p =
     (case expect p TOKEN_IF ''if'' ([CHR 0x60] @ ''if'' @ [QUOTE] @ '' keyword'') of
        (Some r, p1) \<Rightarrow> Some (r, p1)
      | (None, p1) \<Rightarrow>
          (case alloc ast_if p1 of
             (None, p2) \<Rightarrow> Some (NO_MEMORY, p2)
           | (Some ifnode0, p2) \<Rightarrow>
               sub (selection_loop n S E ifnode0 p2) id (\<lambda>ifnode p3.
                 case accept p3 TOKEN_ELSE of
                   (True, p4) \<Rightarrow>
                     sub (S p4) (release ifnode) (\<lambda>alt p5. selection_end (if_set_alt ifnode alt) p5)
                 | (False, p4) \<Rightarrow> selection_end ifnode p4)))"

definition statement :: "nat \<Rightarrow> rule \<Rightarrow> rule \<Rightarrow> rule" where
  "statement n S E p =
     (case peek p of (t, p0) \<Rightarrow>
        if t = TOKEN_END then
          (case alloc ast_empty p0 of (e, p1) \<Rightarrow> Some (with_ast e, p1))
        else if t = TOKEN_IF then selection n S E p0
        else if t = TOKEN_FOREACH then iteration n S E p0
        else if t = TOKEN_BREAK then
          (case accept p0 TOKEN_BREAK of (b, p1) \<Rightarrow>
             (case alloc (new_node (\<lambda>a. Ast a AST_JUMP AST_BREAK)) p1 of
                (j, p2) \<Rightarrow> Some (with_ast j, p2)))
        else if t = TOKEN_CONTINUE then
          (case accept p0 TOKEN_CONTINUE of (b, p1) \<Rightarrow>
             (case alloc (new_node (\<lambda>a. Ast a AST_JUMP AST_CONTINUE)) p1 of
                (j, p2) \<Rightarrow> Some (with_ast j, p2)))
        else E p0)"

text \<open>
  The \<open>do ... while\<close> loop of \<open>sequence\<close> with the code after it; \<open>ST\<close> is \<open>statement\<close>
  and \<open>x\<close> the statement to append.
\<close>

primrec sequence_loop :: "nat \<Rightarrow> rule \<Rightarrow> ast \<Rightarrow> ast \<Rightarrow> rule" where
  "sequence_loop 0 ST seq x p = None"
| "sequence_loop (Suc n) ST seq x p =
     (case ST p of
        None \<Rightarrow> None
      | Some (res, p1) \<Rightarrow>
          (case res of
             SUCCESS a \<Rightarrow>
               if ast_type_of a \<noteq> AST_EMPTY then sequence_loop n ST (seq_append seq x) a p1
               else Some (with_ast (Some (seq_append seq x)), release a p1)
           | FAILURE e \<Rightarrow> Some (res, release (seq_append seq x) p1)
           | NO_MEMORY \<Rightarrow> Some (res, release (seq_append seq x) p1)))"

text \<open>The body of \<open>sequence\<close>, with \<open>statement\<close> as a parameter.\<close>

definition sequence_of :: "nat \<Rightarrow> rule \<Rightarrow> rule" where
  "sequence_of n ST p =
     sub (ST p) id (\<lambda>first p1.
       if ast_type_of first = AST_EMPTY then Some (with_ast (Some first), p1)
       else
         (case alloc ast_seq p1 of
            (None, p2) \<Rightarrow> Some (NO_MEMORY, release first p2)
          | (Some seq, p2) \<Rightarrow> sequence_loop n ST seq first p2))"

text \<open>
  \<open>sequence\<close> is declared before \<open>iteration\<close> and \<open>selection\<close>, which call it: the
  recursion of the statement grammar goes through it.
\<close>

primrec sequence :: "nat \<Rightarrow> rule" where
  "sequence 0 p = None"
| "sequence (Suc n) p = sequence_of n (statement n (sequence n) (expression n)) p"

text \<open>
  \<open>parse\<close>, with the state of the allocator before and after. The bound on the
  recursion is taken from the size of the buffer of the source (a nested expression or
  block and an iteration of a loop begin with a token of their own, and a token with at
  least one byte read); a parse that reaches the bound is \<open>None\<close>.
\<close>

definition parse_bound :: "cstring \<Rightarrow> nat" where
  "parse_bound s =
     Suc (Suc (Suc (Suc (case string_text s of None \<Rightarrow> 0 | Some b \<Rightarrow> length b))))"

definition parse :: "heap \<Rightarrow> cstring \<Rightarrow> (parse_result \<times> heap) option" where
  "parse h s =
     (let p = \<lparr>lexer = lexer_init h s, token = TOKEN_INVALID, ready = False\<rparr> in
      case sequence (parse_bound s) p of
        None \<Rightarrow> None
      | Some (res, p1) \<Rightarrow>
          Some (case res of
                  SUCCESS a \<Rightarrow> Parsed a
                | FAILURE e \<Rightarrow> Error e
                | NO_MEMORY \<Rightarrow> Error (string_from_buf ''not enough memory''),
                lexer_free (lexer p1)))"


subsection \<open>The statements of a sequence, as the specification words them\<close>

text \<open>
  The specification describes a sequence as the statements collected until one parses to
  the Empty node. \<open>spec_statements\<close> follows these words: it runs the statement rule
  until it yields the Empty node and returns the statements before it, the Empty node and
  the state after it. It is compared with the loop of \<open>sequence\<close> below.
\<close>

primrec spec_statements :: "nat \<Rightarrow> rule \<Rightarrow> parser \<Rightarrow> (ast list \<times> ast \<times> parser) option" where
  "spec_statements 0 ST p = None"
| "spec_statements (Suc n) ST p =
     (case ST p of
        Some (SUCCESS a, p1) \<Rightarrow>
          if ast_type_of a = AST_EMPTY then Some ([], a, p1)
          else (case spec_statements n ST p1 of
                  Some (rest, e, pE) \<Rightarrow> Some (a # rest, e, pE)
                | None \<Rightarrow> None)
      | _ \<Rightarrow> None)"


subsection \<open>A node down the left operands of a tree\<close>

text \<open>
  The claim about an operator at the start of a statement speaks of a tree that contains a
  binary node. \<open>on_left x y\<close> says where such a node is found: \<open>x\<close> is \<open>y\<close>, or it is
  reached from \<open>y\<close> by going down left operands of binary nodes and conditions of ternary
  nodes, which is where the operator rules put the node they were given.
\<close>

fun on_left :: "ast \<Rightarrow> ast \<Rightarrow> bool" where
  "on_left x (Ast_binary a t s l r) = (x = Ast_binary a t s l r \<or> on_left x l)"
| "on_left x (Ast_ternary a c t e) = (x = Ast_ternary a c t e \<or> on_left x c)"
| "on_left x y = (x = y)"


section \<open>Running the model\<close>

text \<open>
  The equations of the loops are used only through the instances below.
\<close>

declare dictionary_loop.simps [simp del] array_loop.simps [simp del]
  application_loop.simps [simp del] postfix_loop.simps [simp del]
  multiplicative_loop.simps [simp del] additive_loop.simps [simp del]
  logical_and_loop.simps [simp del] logical_or_loop.simps [simp del]
  expression.simps [simp del] iteration_loop.simps [simp del]
  selection_loop.simps [simp del] sequence_loop.simps [simp del] sequence.simps [simp del]

lemma sub_simps:
  "sub None c k = None"
  "sub (Some (SUCCESS a, p)) c k = k a p"
  "sub (Some (FAILURE e, p)) c k = Some (FAILURE e, c p)"
  "sub (Some (NO_MEMORY, p)) c k = Some (NO_MEMORY, c p)"
  by (simp_all add: sub_def)

lemma sub_cong: "m = m' \<Longrightarrow> sub m c k = sub m' c k"
  by simp

text \<open>
  The definitions, each restricted to a state that is written out. With them the
  simplifier runs the model on a concrete state step by step, and leaves alone a call
  whose state is not known yet.
\<close>

lemmas heap_eval =
  mem_alloc_def [of _ "\<lparr>outcomes = os, top = tp, live = lv, wrong = wr, fault = ft\<rparr>" for os tp lv wr ft]
  mem_free_def [of _ "\<lparr>outcomes = os, top = tp, live = lv, wrong = wr, fault = ft\<rparr>" for os tp lv wr ft]
  mem_realloc_def [of _ _ "\<lparr>outcomes = os, top = tp, live = lv, wrong = wr, fault = ft\<rparr>" for os tp lv wr ft]
  mem_clear_def [of _ _ "\<lparr>outcomes = os, top = tp, live = lv, wrong = wr, fault = ft\<rparr>" for os tp lv wr ft]
  string_dup_n_def [of _ "\<lparr>outcomes = os, top = tp, live = lv, wrong = wr, fault = ft\<rparr>" for os tp lv wr ft]
  string_dup_def [of _ "\<lparr>outcomes = os, top = tp, live = lv, wrong = wr, fault = ft\<rparr>" for os tp lv wr ft]
  string_free_def [of _ "\<lparr>outcomes = os, top = tp, live = lv, wrong = wr, fault = ft\<rparr>" for os tp lv wr ft]
  ast_new_def [of "\<lparr>outcomes = os, top = tp, live = lv, wrong = wr, fault = ft\<rparr>" for os tp lv wr ft]
  new_node_def [of _ "\<lparr>outcomes = os, top = tp, live = lv, wrong = wr, fault = ft\<rparr>" for os tp lv wr ft]
  dup_text_def [of _ "\<lparr>outcomes = os, top = tp, live = lv, wrong = wr, fault = ft\<rparr>" for os tp lv wr ft]
  ast_id_def [of _ "\<lparr>outcomes = os, top = tp, live = lv, wrong = wr, fault = ft\<rparr>" for os tp lv wr ft]
  ast_string_def [of _ "\<lparr>outcomes = os, top = tp, live = lv, wrong = wr, fault = ft\<rparr>" for os tp lv wr ft]
  ast_if_clause_def [of _ _ _ "\<lparr>outcomes = os, top = tp, live = lv, wrong = wr, fault = ft\<rparr>" for os tp lv wr ft]
  lexer_init_def [of "\<lparr>outcomes = os, top = tp, live = lv, wrong = wr, fault = ft\<rparr>" for os tp lv wr ft]

lemmas lexer_eval =
  set_fault_def [of "\<lparr>error = er, input = inp, input_pos = ip, input_len = il, lexeme_len = ll, lexeme_max = lm, lexeme = lx, lexeme_ptr = lp, mem = m\<rparr>" for er inp ip il ll lm lx lp m]
  readable_def [of "\<lparr>error = er, input = inp, input_pos = ip, input_len = il, lexeme_len = ll, lexeme_max = lm, lexeme = lx, lexeme_ptr = lp, mem = m\<rparr>" for er inp ip il ll lm lx lp m]
  lex_peek_def [of "\<lparr>error = er, input = inp, input_pos = ip, input_len = il, lexeme_len = ll, lexeme_max = lm, lexeme = lx, lexeme_ptr = lp, mem = m\<rparr>" for er inp ip il ll lm lx lp m]
  advance_def [of "\<lparr>error = er, input = inp, input_pos = ip, input_len = il, lexeme_len = ll, lexeme_max = lm, lexeme = lx, lexeme_ptr = lp, mem = m\<rparr>" for er inp ip il ll lm lx lp m]
  grow_def [of "\<lparr>error = er, input = inp, input_pos = ip, input_len = il, lexeme_len = ll, lexeme_max = lm, lexeme = lx, lexeme_ptr = lp, mem = m\<rparr>" for er inp ip il ll lm lx lp m]
  store_def [of _ "\<lparr>error = er, input = inp, input_pos = ip, input_len = il, lexeme_len = ll, lexeme_max = lm, lexeme = lx, lexeme_ptr = lp, mem = m\<rparr>" for er inp ip il ll lm lx lp m]
  lex_append_def [of "\<lparr>error = er, input = inp, input_pos = ip, input_len = il, lexeme_len = ll, lexeme_max = lm, lexeme = lx, lexeme_ptr = lp, mem = m\<rparr>" for er inp ip il ll lm lx lp m]
  finish_def [of "\<lparr>error = er, input = inp, input_pos = ip, input_len = il, lexeme_len = ll, lexeme_max = lm, lexeme = lx, lexeme_ptr = lp, mem = m\<rparr>" for er inp ip il ll lm lx lp m]
  is_end_def [of "\<lparr>error = er, input = inp, input_pos = ip, input_len = il, lexeme_len = ll, lexeme_max = lm, lexeme = lx, lexeme_ptr = lp, mem = m\<rparr>" for er inp ip il ll lm lx lp m]
  is_punct_def [of "\<lparr>error = er, input = inp, input_pos = ip, input_len = il, lexeme_len = ll, lexeme_max = lm, lexeme = lx, lexeme_ptr = lp, mem = m\<rparr>" for er inp ip il ll lm lx lp m]
  is_space_def [of "\<lparr>error = er, input = inp, input_pos = ip, input_len = il, lexeme_len = ll, lexeme_max = lm, lexeme = lx, lexeme_ptr = lp, mem = m\<rparr>" for er inp ip il ll lm lx lp m]
  is_symbol_def [of "\<lparr>error = er, input = inp, input_pos = ip, input_len = il, lexeme_len = ll, lexeme_max = lm, lexeme = lx, lexeme_ptr = lp, mem = m\<rparr>" for er inp ip il ll lm lx lp m]
  is_bdigit_def [of "\<lparr>error = er, input = inp, input_pos = ip, input_len = il, lexeme_len = ll, lexeme_max = lm, lexeme = lx, lexeme_ptr = lp, mem = m\<rparr>" for er inp ip il ll lm lx lp m]
  is_odigit_def [of "\<lparr>error = er, input = inp, input_pos = ip, input_len = il, lexeme_len = ll, lexeme_max = lm, lexeme = lx, lexeme_ptr = lp, mem = m\<rparr>" for er inp ip il ll lm lx lp m]
  is_xdigit_def [of "\<lparr>error = er, input = inp, input_pos = ip, input_len = il, lexeme_len = ll, lexeme_max = lm, lexeme = lx, lexeme_ptr = lp, mem = m\<rparr>" for er inp ip il ll lm lx lp m]
  is_digit_def [of "\<lparr>error = er, input = inp, input_pos = ip, input_len = il, lexeme_len = ll, lexeme_max = lm, lexeme = lx, lexeme_ptr = lp, mem = m\<rparr>" for er inp ip il ll lm lx lp m]
  is_quote_def [of "\<lparr>error = er, input = inp, input_pos = ip, input_len = il, lexeme_len = ll, lexeme_max = lm, lexeme = lx, lexeme_ptr = lp, mem = m\<rparr>" for er inp ip il ll lm lx lp m]
  lex_match_def [of "\<lparr>error = er, input = inp, input_pos = ip, input_len = il, lexeme_len = ll, lexeme_max = lm, lexeme = lx, lexeme_ptr = lp, mem = m\<rparr>" for er inp ip il ll lm lx lp m]
  lex_accept_def [of "\<lparr>error = er, input = inp, input_pos = ip, input_len = il, lexeme_len = ll, lexeme_max = lm, lexeme = lx, lexeme_ptr = lp, mem = m\<rparr>" for er inp ip il ll lm lx lp m]
  keyword_loop.simps(1) [of _ "\<lparr>error = er, input = inp, input_pos = ip, input_len = il, lexeme_len = ll, lexeme_max = lm, lexeme = lx, lexeme_ptr = lp, mem = m\<rparr>" for er inp ip il ll lm lx lp m]
  keyword_loop.simps(2) [of _ _ _ _ _ "\<lparr>error = er, input = inp, input_pos = ip, input_len = il, lexeme_len = ll, lexeme_max = lm, lexeme = lx, lexeme_ptr = lp, mem = m\<rparr>" for er inp ip il ll lm lx lp m]
  identifier_loop.simps [of "\<lparr>error = er, input = inp, input_pos = ip, input_len = il, lexeme_len = ll, lexeme_max = lm, lexeme = lx, lexeme_ptr = lp, mem = m\<rparr>" for er inp ip il ll lm lx lp m]
  symbol_def [of "\<lparr>error = er, input = inp, input_pos = ip, input_len = il, lexeme_len = ll, lexeme_max = lm, lexeme = lx, lexeme_ptr = lp, mem = m\<rparr>" for er inp ip il ll lm lx lp m]
  text_loop.simps [of "\<lparr>error = er, input = inp, input_pos = ip, input_len = il, lexeme_len = ll, lexeme_max = lm, lexeme = lx, lexeme_ptr = lp, mem = m\<rparr>" for er inp ip il ll lm lx lp m]
  quote_loop.simps [of _ "\<lparr>error = er, input = inp, input_pos = ip, input_len = il, lexeme_len = ll, lexeme_max = lm, lexeme = lx, lexeme_ptr = lp, mem = m\<rparr>" for er inp ip il ll lm lx lp m]
  multiline_string.simps [of "\<lparr>error = er, input = inp, input_pos = ip, input_len = il, lexeme_len = ll, lexeme_max = lm, lexeme = lx, lexeme_ptr = lp, mem = m\<rparr>" for er inp ip il ll lm lx lp m]
  lex_string_def [of "\<lparr>error = er, input = inp, input_pos = ip, input_len = il, lexeme_len = ll, lexeme_max = lm, lexeme = lx, lexeme_ptr = lp, mem = m\<rparr>" for er inp ip il ll lm lx lp m]
  cond_def [of _ "\<lparr>error = er, input = inp, input_pos = ip, input_len = il, lexeme_len = ll, lexeme_max = lm, lexeme = lx, lexeme_ptr = lp, mem = m\<rparr>" for er inp ip il ll lm lx lp m]
  digit_loop.simps [of _ "\<lparr>error = er, input = inp, input_pos = ip, input_len = il, lexeme_len = ll, lexeme_max = lm, lexeme = lx, lexeme_ptr = lp, mem = m\<rparr>" for er inp ip il ll lm lx lp m]
  number_end_def [of _ "\<lparr>error = er, input = inp, input_pos = ip, input_len = il, lexeme_len = ll, lexeme_max = lm, lexeme = lx, lexeme_ptr = lp, mem = m\<rparr>" for er inp ip il ll lm lx lp m]
  lex_number_def [of "\<lparr>error = er, input = inp, input_pos = ip, input_len = il, lexeme_len = ll, lexeme_max = lm, lexeme = lx, lexeme_ptr = lp, mem = m\<rparr>" for er inp ip il ll lm lx lp m]
  maybe_eq_def [of "\<lparr>error = er, input = inp, input_pos = ip, input_len = il, lexeme_len = ll, lexeme_max = lm, lexeme = lx, lexeme_ptr = lp, mem = m\<rparr>" for er inp ip il ll lm lx lp m]
  append_finish_def [of "\<lparr>error = er, input = inp, input_pos = ip, input_len = il, lexeme_len = ll, lexeme_max = lm, lexeme = lx, lexeme_ptr = lp, mem = m\<rparr>" for er inp ip il ll lm lx lp m]
  space_loop.simps [of "\<lparr>error = er, input = inp, input_pos = ip, input_len = il, lexeme_len = ll, lexeme_max = lm, lexeme = lx, lexeme_ptr = lp, mem = m\<rparr>" for er inp ip il ll lm lx lp m]
  comment_loop.simps [of "\<lparr>error = er, input = inp, input_pos = ip, input_len = il, lexeme_len = ll, lexeme_max = lm, lexeme = lx, lexeme_ptr = lp, mem = m\<rparr>" for er inp ip il ll lm lx lp m]
  blank_loop.simps [of "\<lparr>error = er, input = inp, input_pos = ip, input_len = il, lexeme_len = ll, lexeme_max = lm, lexeme = lx, lexeme_ptr = lp, mem = m\<rparr>" for er inp ip il ll lm lx lp m]
  do_lex_def [of "\<lparr>error = er, input = inp, input_pos = ip, input_len = il, lexeme_len = ll, lexeme_max = lm, lexeme = lx, lexeme_ptr = lp, mem = m\<rparr>" for er inp ip il ll lm lx lp m]
  lexer_free_def [of "\<lparr>error = er, input = inp, input_pos = ip, input_len = il, lexeme_len = ll, lexeme_max = lm, lexeme = lx, lexeme_ptr = lp, mem = m\<rparr>" for er inp ip il ll lm lx lp m]
  lex_def [of "\<lparr>error = er, input = inp, input_pos = ip, input_len = il, lexeme_len = ll, lexeme_max = lm, lexeme = lx, lexeme_ptr = lp, mem = m\<rparr>" for er inp ip il ll lm lx lp m]

lemmas parser_eval =
  heap_of_def [of "\<lparr>lexer = l, token = tk, ready = rd\<rparr>" for l tk rd]
  set_heap_def [of _ "\<lparr>lexer = l, token = tk, ready = rd\<rparr>" for l tk rd]
  alloc_def [of _ "\<lparr>lexer = l, token = tk, ready = rd\<rparr>" for l tk rd]
  release_def [of _ "\<lparr>lexer = l, token = tk, ready = rd\<rparr>" for l tk rd]
  peek_def [of "\<lparr>lexer = l, token = tk, ready = rd\<rparr>" for l tk rd]
  accept_any_def [of "\<lparr>lexer = l, token = tk, ready = rd\<rparr>" for l tk rd]
  accept_def [of "\<lparr>lexer = l, token = tk, ready = rd\<rparr>" for l tk rd]
  with_error_def [of "\<lparr>lexer = l, token = tk, ready = rd\<rparr>" for l tk rd]
  with_expected_def [of "\<lparr>lexer = l, token = tk, ready = rd\<rparr>" for l tk rd]
  expect_def [of "\<lparr>lexer = l, token = tk, ready = rd\<rparr>" for l tk rd]
  comma_then_def [of _ "\<lparr>lexer = l, token = tk, ready = rd\<rparr>" for l tk rd]
  lexeme_text_def [of "\<lparr>lexer = l, token = tk, ready = rd\<rparr>" for l tk rd]
  maybe_identifier_def [of "\<lparr>lexer = l, token = tk, ready = rd\<rparr>" for l tk rd]
  dictionary_end_def [of _ "\<lparr>lexer = l, token = tk, ready = rd\<rparr>" for l tk rd]
  dictionary_loop.simps(2) [of _ _ _ "\<lparr>lexer = l, token = tk, ready = rd\<rparr>" for l tk rd]
  dictionary_def [of _ _ "\<lparr>lexer = l, token = tk, ready = rd\<rparr>" for l tk rd]
  array_end_def [of _ _ "\<lparr>lexer = l, token = tk, ready = rd\<rparr>" for l tk rd]
  array_loop.simps(2) [of _ _ _ _ "\<lparr>lexer = l, token = tk, ready = rd\<rparr>" for l tk rd]
  array_def [of _ _ "\<lparr>lexer = l, token = tk, ready = rd\<rparr>" for l tk rd]
  parse_string_def [of "\<lparr>lexer = l, token = tk, ready = rd\<rparr>" for l tk rd]
  parse_number_def [of "\<lparr>lexer = l, token = tk, ready = rd\<rparr>" for l tk rd]
  boolean_def [of "\<lparr>lexer = l, token = tk, ready = rd\<rparr>" for l tk rd]
  literal_def [of _ _ "\<lparr>lexer = l, token = tk, ready = rd\<rparr>" for l tk rd]
  primary_def [of _ _ "\<lparr>lexer = l, token = tk, ready = rd\<rparr>" for l tk rd]
  subscript_def [of _ "\<lparr>lexer = l, token = tk, ready = rd\<rparr>" for l tk rd]
  application_end_def [of _ "\<lparr>lexer = l, token = tk, ready = rd\<rparr>" for l tk rd]
  application_loop.simps(2) [of _ _ _ _ "\<lparr>lexer = l, token = tk, ready = rd\<rparr>" for l tk rd]
  application_def [of _ _ "\<lparr>lexer = l, token = tk, ready = rd\<rparr>" for l tk rd]
  postfix_loop.simps(2) [of _ _ _ "\<lparr>lexer = l, token = tk, ready = rd\<rparr>" for l tk rd]
  postfix_def [of _ _ "\<lparr>lexer = l, token = tk, ready = rd\<rparr>" for l tk rd]
  unary_def [of _ _ "\<lparr>lexer = l, token = tk, ready = rd\<rparr>" for l tk rd]
  multiplicative_loop.simps(2) [of _ _ _ "\<lparr>lexer = l, token = tk, ready = rd\<rparr>" for l tk rd]
  multiplicative_def [of _ _ "\<lparr>lexer = l, token = tk, ready = rd\<rparr>" for l tk rd]
  additive_loop.simps(2) [of _ _ _ "\<lparr>lexer = l, token = tk, ready = rd\<rparr>" for l tk rd]
  additive_def [of _ _ "\<lparr>lexer = l, token = tk, ready = rd\<rparr>" for l tk rd]
  relational_def [of _ _ "\<lparr>lexer = l, token = tk, ready = rd\<rparr>" for l tk rd]
  equality_def [of _ _ "\<lparr>lexer = l, token = tk, ready = rd\<rparr>" for l tk rd]
  logical_and_loop.simps(2) [of _ _ _ "\<lparr>lexer = l, token = tk, ready = rd\<rparr>" for l tk rd]
  logical_and_def [of _ _ "\<lparr>lexer = l, token = tk, ready = rd\<rparr>" for l tk rd]
  logical_or_loop.simps(2) [of _ _ _ "\<lparr>lexer = l, token = tk, ready = rd\<rparr>" for l tk rd]
  logical_or_def [of _ _ "\<lparr>lexer = l, token = tk, ready = rd\<rparr>" for l tk rd]
  conditional_def [of _ _ "\<lparr>lexer = l, token = tk, ready = rd\<rparr>" for l tk rd]
  assignment_def [of _ _ "\<lparr>lexer = l, token = tk, ready = rd\<rparr>" for l tk rd]
  expression.simps(2) [of _ "\<lparr>lexer = l, token = tk, ready = rd\<rparr>" for l tk rd]
  iteration_loop.simps(2) [of _ _ "\<lparr>lexer = l, token = tk, ready = rd\<rparr>" for l tk rd]
  iteration_def [of _ _ _ "\<lparr>lexer = l, token = tk, ready = rd\<rparr>" for l tk rd]
  selection_loop.simps(2) [of _ _ _ _ "\<lparr>lexer = l, token = tk, ready = rd\<rparr>" for l tk rd]
  selection_end_def [of _ "\<lparr>lexer = l, token = tk, ready = rd\<rparr>" for l tk rd]
  selection_def [of _ _ _ "\<lparr>lexer = l, token = tk, ready = rd\<rparr>" for l tk rd]
  statement_def [of _ _ _ "\<lparr>lexer = l, token = tk, ready = rd\<rparr>" for l tk rd]
  sequence_loop.simps(2) [of _ _ _ _ "\<lparr>lexer = l, token = tk, ready = rd\<rparr>" for l tk rd]
  sequence_of_def [of _ _ "\<lparr>lexer = l, token = tk, ready = rd\<rparr>" for l tk rd]
  sequence.simps(2) [of _ "\<lparr>lexer = l, token = tk, ready = rd\<rparr>" for l tk rd]

lemmas plain_eval =
  heap_init_def keyword_table_def isspace_def isalpha_def isdigit_def isxdigit_def
  lex_fail_def size_sub_def NUL_def QUOTE_def BACKSLASH_def NEWLINE_def Let_def
  strlen_def string_from_buf_n_def string_from_buf_def string_text_def string_length_def
  ast_empty_def ast_seq_def ast_binary_def ast_ternary_def ast_if_def
  ast_foreach_def ast_member_def ast_app_def ast_boolean_def ast_number_def ast_array_def
  ast_dict_def with_ast_def sub_simps digit_value_def strtoll_def parse_def parse_bound_def
  dictionary_loop.simps(1) array_loop.simps(1) application_loop.simps(1) postfix_loop.simps(1)
  multiplicative_loop.simps(1) additive_loop.simps(1) logical_and_loop.simps(1)
  logical_or_loop.simps(1) expression.simps(1) iteration_loop.simps(1)
  selection_loop.simps(1) sequence_loop.simps(1) sequence.simps(1)

lemmas eval = plain_eval heap_eval lexer_eval parser_eval

lemmas eval_cong = prod.case_cong_weak let_weak_cong sub_cong


section \<open>Facts about the tokenizer\<close>

subsection \<open>The error latch\<close>

text \<open>
  With \<open>error\<close> set, \<open>grow\<close> refuses, so \<open>finish\<close> fails and nothing is written to the
  buffer; every scanning function leaves the latch set. These facts are about what the
  model returns: where a call has set \<open>fault\<close>, the C program has read outside its input
  and what it returns is not known.
\<close>

lemma set_fault_error [simp]: "error (set_fault l) = error l"
  by (simp add: set_fault_def)

lemma advance_error [simp]: "error (advance l) = error l"
  by (simp add: advance_def)

lemma finish_latched: "error l \<Longrightarrow> finish l tok = (lex_fail, l)"
  by (simp add: finish_def grow_def)

lemma lex_append_latched: "error l \<Longrightarrow> error (lex_append l)"
  by (simp add: lex_append_def grow_def)

lemma lex_match_latched: "error l \<Longrightarrow> error (snd (lex_match l c))"
  by (simp add: lex_match_def)

lemma lex_accept_latched: "error l \<Longrightarrow> error (snd (lex_accept l c))"
  by (simp add: lex_accept_def lex_append_latched)

lemma keyword_loop_latched: "error l \<Longrightarrow> error (snd (keyword_loop ks j l))"
proof (induction ks j l rule: keyword_loop.induct)
  case (1 j l)
  then show ?case by (simp add: keyword_loop.simps)
next
  case (2 prefix name tok ks j l)
  show ?case
  proof (cases "length name < j \<or> j = length name")
    case True
    with "2.prems" show ?thesis by (auto simp: keyword_loop.simps)
  next
    case False
    obtain b l1 where a: "lex_accept l (name ! j) = (b, l1)" by (cases "lex_accept l (name ! j)")
    then have e: "error l1" using lex_accept_latched [OF "2.prems", of "name ! j"] by simp
    show ?thesis
    proof (cases b)
      case True
      with "2.IH"(1) False a e show ?thesis
        by (auto simp: keyword_loop.simps)
    next
      case b: False
      with "2.IH"(2) False a e show ?thesis
        by (auto simp: keyword_loop.simps)
    qed
  qed
qed

lemma identifier_loop_latched: "error l \<Longrightarrow> error (identifier_loop l)"
proof (induction l rule: identifier_loop.induct)
  case (1 l)
  show ?case
  proof (cases "readable l \<and> (is_symbol l \<or> is_digit l)")
    case True
    then have "identifier_loop l = identifier_loop (lex_append l)"
      by (subst identifier_loop.simps) simp
    with "1.IH" True "1.prems" lex_append_latched [of l] show ?thesis by simp
  next
    case False
    then have "identifier_loop l = l \<or> identifier_loop l = set_fault l"
      by (subst (1 2) identifier_loop.simps) auto
    with "1.prems" show ?thesis by auto
  qed
qed

lemma symbol_latched:
  assumes "error l"
  shows "\<not> success (fst (symbol l)) \<and> error (snd (symbol l))"
proof -
  obtain r l1 where k: "keyword_loop keyword_table 0 l = (r, l1)"
    by (cases "keyword_loop keyword_table 0 l")
  then have e: "error l1" using keyword_loop_latched [OF assms, of keyword_table 0] by simp
  show ?thesis
    using k e identifier_loop_latched [OF e]
    by (cases r) (simp_all add: symbol_def finish_latched lex_fail_def)
qed

lemma text_loop_latched: "error l \<Longrightarrow> error (text_loop l)"
proof (induction l rule: text_loop.induct)
  case (1 l)
  show ?case
  proof (cases "\<not> is_end l \<and> readable l \<and> \<not> is_quote l")
    case True
    then have "text_loop l = text_loop (lex_append l)"
      by (subst text_loop.simps) simp
    with "1.IH" True "1.prems" lex_append_latched [of l] show ?thesis by simp
  next
    case False
    then have "text_loop l = l \<or> text_loop l = set_fault l"
      by (subst (1 2) text_loop.simps) auto
    with "1.prems" show ?thesis by auto
  qed
qed

lemma quote_loop_latched: "error l \<Longrightarrow> error (snd (quote_loop i l))"
proof (induction i l rule: quote_loop.induct)
  case (1 i l)
  show ?case
  proof (cases "i < 3 \<and> readable l \<and> is_quote l")
    case True
    then have "quote_loop i l = quote_loop (Suc i) (lex_append l)"
      by (subst quote_loop.simps) simp
    with "1.IH" True "1.prems" lex_append_latched [of l] show ?thesis by simp
  next
    case False
    then have "quote_loop i l = (i, l) \<or> quote_loop i l = (i, set_fault l)"
      by (subst (1 2) quote_loop.simps) auto
    with "1.prems" show ?thesis by auto
  qed
qed

lemma multiline_string_latched:
  "error l \<Longrightarrow> \<not> success (fst (multiline_string l)) \<and> error (snd (multiline_string l))"
proof (induction l rule: multiline_string.induct)
  case (1 l)
  show ?case
  proof (cases "is_end l \<or> \<not> readable l")
    case True
    with "1.prems" show ?thesis by (auto simp: multiline_string.simps lex_fail_def)
  next
    case False
    obtain i l2 where q: "quote_loop 0 (text_loop l) = (i, l2)"
      by (cases "quote_loop 0 (text_loop l)")
    have e2: "error l2"
      using quote_loop_latched [OF text_loop_latched [OF "1.prems"], of 0] q by simp
    show ?thesis
    proof (cases "i = 3")
      case True
      with False q e2 show ?thesis
        by (simp add: multiline_string.simps finish_latched lex_fail_def)
    next
      case ne: False
      have "multiline_string l = multiline_string (lex_append l2)"
        using False q ne by (subst multiline_string.simps) simp
      with "1.IH" False q ne lex_append_latched [OF e2] show ?thesis
        by auto
    qed
  qed
qed

lemma lex_string_latched:
  assumes "error l"
  shows "\<not> success (fst (lex_string l)) \<and> error (snd (lex_string l))"
proof -
  have m: "error (snd (lex_match x c))" if "error x" for x c
    using that by (rule lex_match_latched)
  obtain b1 l1 where 1: "lex_match l QUOTE = (b1, l1)" by (cases "lex_match l QUOTE")
  obtain b2 l2 where 2: "lex_match l1 QUOTE = (b2, l2)" by (cases "lex_match l1 QUOTE")
  obtain b3 l3 where 3: "lex_match l2 QUOTE = (b3, l3)" by (cases "lex_match l2 QUOTE")
  obtain b4 l4 where 4: "lex_match (text_loop l2) QUOTE = (b4, l4)"
    by (cases "lex_match (text_loop l2) QUOTE")
  have e1: "error l1" using m [OF assms, of QUOTE] 1 by simp
  have e2: "error l2" using m [OF e1, of QUOTE] 2 by simp
  have e3: "error l3" using m [OF e2, of QUOTE] 3 by simp
  have e4: "error l4" using m [OF text_loop_latched [OF e2], of QUOTE] 4 by simp
  show ?thesis
    using 1 2 3 4 e3 e4 multiline_string_latched [OF e3]
    by (cases b2; cases b3; cases b4)
       (simp_all add: lex_string_def Let_def finish_latched lex_fail_def)
qed

lemma digit_loop_latched: "error l \<Longrightarrow> error (digit_loop tok l)"
proof (induction tok l rule: digit_loop.induct)
  case (1 tok l)
  show ?case
  proof (cases "readable l \<and> cond tok l")
    case True
    then have "digit_loop tok l = digit_loop tok (lex_append l)"
      by (subst digit_loop.simps) simp
    with "1.IH" True "1.prems" lex_append_latched [of l] show ?thesis by simp
  next
    case False
    then have "digit_loop tok l = l \<or> digit_loop tok l = set_fault l"
      by (subst (1 2) digit_loop.simps) auto
    with "1.prems" show ?thesis by auto
  qed
qed

lemma number_end_latched:
  assumes "error l"
  shows "\<not> success (fst (number_end tok l)) \<and> error (snd (number_end tok l))"
  using digit_loop_latched [OF assms, of tok]
  by (simp add: number_end_def Let_def finish_latched lex_fail_def)

lemma lex_number_latched:
  assumes "error l"
  shows "\<not> success (fst (lex_number l)) \<and> error (snd (lex_number l))"
proof -
  have a: "error (lex_append l)" using assms by (rule lex_append_latched)
  have n: "\<not> success (fst (number_end tok x)) \<and> error (snd (number_end tok x))"
    if "error x" for tok x
    using that by (rule number_end_latched)
  show ?thesis
    using assms a by (simp add: lex_number_def lex_accept_def Let_def lex_fail_def n)
qed

lemma maybe_eq_latched:
  assumes "error l"
  shows "\<not> success (fst (maybe_eq l a b)) \<and> error (snd (maybe_eq l a b))"
proof -
  obtain c l1 where 1: "lex_accept (lex_append l) (CHR ''='') = (c, l1)"
    by (cases "lex_accept (lex_append l) (CHR ''='')")
  have "error l1"
    using lex_accept_latched [OF lex_append_latched [OF assms], of "CHR ''=''"] 1 by simp
  then show ?thesis using 1 by (cases c) (simp_all add: maybe_eq_def finish_latched lex_fail_def)
qed

lemma append_finish_latched:
  assumes "error l"
  shows "\<not> success (fst (append_finish l tok)) \<and> error (snd (append_finish l tok))"
  using lex_append_latched [OF assms] by (simp add: append_finish_def finish_latched lex_fail_def)

lemma space_loop_latched: "error l \<Longrightarrow> error (space_loop l)"
proof (induction l rule: space_loop.induct)
  case (1 l)
  show ?case
  proof (cases "\<not> is_end l \<and> readable l \<and> is_space l")
    case True
    then have "space_loop l = space_loop (advance l)" by (subst space_loop.simps) simp
    with "1.IH" True "1.prems" show ?thesis by simp
  next
    case False
    then have "space_loop l = l \<or> space_loop l = set_fault l"
      by (subst (1 2) space_loop.simps) auto
    with "1.prems" show ?thesis by auto
  qed
qed

lemma comment_loop_latched: "error l \<Longrightarrow> error (comment_loop l)"
proof (induction l rule: comment_loop.induct)
  case (1 l)
  show ?case
  proof (cases "\<not> is_end l \<and> readable l \<and> lex_peek l \<noteq> NEWLINE")
    case True
    then have "comment_loop l = comment_loop (advance l)" by (subst comment_loop.simps) simp
    with "1.IH" True "1.prems" show ?thesis by simp
  next
    case False
    then have "comment_loop l = l \<or> comment_loop l = set_fault l"
      by (subst (1 2) comment_loop.simps) auto
    with "1.prems" show ?thesis by auto
  qed
qed

lemma blank_loop_latched: "error l \<Longrightarrow> error (snd (blank_loop l))"
proof (induction l rule: blank_loop.induct)
  case (1 l)
  let ?l1 = "space_loop l"
  have e1: "error ?l1" using "1.prems" by (rule space_loop_latched)
  show ?case
  proof (cases "is_end ?l1 \<or> \<not> readable ?l1")
    case True
    then show ?thesis using e1 by (subst blank_loop.simps) (auto simp: Let_def)
  next
    case False
    then have ne: "\<not> is_end ?l1" and rd: "readable ?l1" by simp_all
    obtain b l2 where m: "lex_match ?l1 BACKSLASH = (b, l2)" by (cases "lex_match ?l1 BACKSLASH")
    have e2: "error l2" using lex_match_latched [OF e1, of BACKSLASH] m by simp
    show ?thesis
    proof (cases b)
      case True
      have "blank_loop l = blank_loop l2"
        using ne rd m True by (subst blank_loop.simps) (simp add: Let_def)
      with "1.IH"(1) [OF refl ne _ m [symmetric]] rd True e2 show ?thesis by simp
    next
      case nb: False
      show ?thesis
      proof (cases "lex_peek l2 \<noteq> CHR ''#''")
        case True
        then have "blank_loop l = (False, l2)"
          using ne rd m nb by (subst blank_loop.simps) (simp add: Let_def)
        with e2 show ?thesis by simp
      next
        case hash: False
        have "blank_loop l = blank_loop (comment_loop l2)"
          using ne rd m nb hash by (subst blank_loop.simps) (simp add: Let_def)
        with "1.IH"(2) [OF refl ne _ m [symmetric]] rd nb hash comment_loop_latched [OF e2]
        show ?thesis by simp
      qed
    qed
  qed
qed

lemma do_lex_latched:
  assumes "error l"
  shows "\<not> success (fst (do_lex l)) \<and> error (snd (do_lex l))"
proof -
  obtain b l1 where bl: "blank_loop (l\<lparr>lexeme_len := 0\<rparr>) = (b, l1)"
    by (cases "blank_loop (l\<lparr>lexeme_len := 0\<rparr>)")
  have e: "error l1" using blank_loop_latched [of "l\<lparr>lexeme_len := 0\<rparr>"] assms bl by simp
  show ?thesis
    using bl e symbol_latched [OF e] append_finish_latched [OF e] maybe_eq_latched [OF e]
      lex_string_latched [OF e] lex_number_latched [OF e]
    by (cases b) (simp_all add: do_lex_def Let_def finish_latched lex_fail_def)
qed

lemma lex_latched:
  assumes "error l"
  shows "fst (lex l) = TOKEN_ERROR" "error (snd (lex l))"
  using do_lex_latched [OF assms] by (cases "do_lex l"; simp add: lex_def)+

lemma grow_latches:
  assumes "\<not> error l" and "lexeme_max l \<le> lexeme_len l"
    and "fst (mem_realloc (lexeme_ptr l) ((lexeme_max l * 2) mod 2 ^ 64) (mem l)) = None"
  shows "grow l = (False, snd (grow l))" "error (snd (grow l))"
  using assms by (auto simp: grow_def Let_def split: prod.splits option.splits)


section \<open>Facts about the parser\<close>

subsection \<open>The lookahead token\<close>

lemma peek_ready:
  assumes "peek p = (t, p0)"
  shows "ready p0" "token p0 = t" "peek p0 = (t, p0)"
  using assms by (auto simp: peek_def split: if_splits prod.splits)

lemma accept_any_ready:
  assumes "ready p"
  shows "accept_any p pairs =
           (case find (\<lambda>(tok, r). tok = token p) pairs of
              Some (tok, r) \<Rightarrow> (Some r, p\<lparr>ready := False\<rparr>)
            | None \<Rightarrow> (None, p))"
  using assms by (simp add: accept_any_def peek_def)

lemma accept_ready:
  assumes "ready p"
  shows "accept p tok = (if token p = tok then (True, p\<lparr>ready := False\<rparr>) else (False, p))"
  using assms by (simp add: accept_def accept_any_ready)

lemma alloc_parser:
  assumes "alloc f p = (x, p1)"
  shows "ready p1 = ready p" "token p1 = token p"
  using assms by (auto simp: alloc_def set_heap_def split: prod.splits)

text \<open>A node that was allocated has the shape its constructor gives it.\<close>

lemma new_node_Some:
  assumes "alloc (new_node f) p = (Some x, p1)"
  shows "\<exists>a. x = f a"
  using assms by (auto simp: alloc_def new_node_def split: prod.splits option.splits)

subsection \<open>The node of a primary expression\<close>

text \<open>
  A literal, an array and a dictionary yield a node of their own type, never an Identifier
  node; an identifier token yields an Identifier node.
\<close>

lemma with_error_FAILURE: "fst (with_error p msg) \<noteq> SUCCESS a"
  by (simp add: with_error_def split: prod.splits)

lemma with_expected_FAILURE: "fst (with_expected p place what) \<noteq> SUCCESS a"
  by (simp add: with_expected_def with_error_FAILURE)

lemma expect_Some:
  assumes "expect p tok place what = (Some r, p1)"
  shows "r \<noteq> SUCCESS a"
proof -
  obtain b q where a: "accept p tok = (b, q)" by (cases "accept p tok")
  with assms have "\<not> b" and "with_expected q place what = (r, p1)"
    by (cases b; auto simp: expect_def split: prod.splits)+
  then show ?thesis using with_expected_FAILURE [of q place what a] by auto
qed

lemma with_ast_SUCCESS: "with_ast x = SUCCESS a \<longleftrightarrow> x = Some a"
  by (simp add: with_ast_def split: option.splits)

lemma array_append_type [simp]: "ast_type_of (array_append arr x) = ast_type_of arr"
  by (cases arr) simp_all

lemma array_set_count_type [simp]: "ast_type_of (array_set_count arr k) = ast_type_of arr"
  by (cases arr) simp_all

lemma dict_append_type [simp]: "ast_type_of (dict_append d x) = ast_type_of d"
  by (cases d) simp_all

lemma array_end_type:
  assumes "array_end arr count p = Some (SUCCESS a, p1)"
  shows "ast_type_of a = ast_type_of arr"
proof -
  obtain b q where acc: "accept p TOKEN_R_BRACKET = (b, q)" by (cases "accept p TOKEN_R_BRACKET")
  show ?thesis
  proof (cases b)
    case True
    with assms acc show ?thesis by (auto simp: array_end_def with_ast_def)
  next
    case False
    with assms acc with_expected_FAILURE [of "release arr q" "''array''" "''closing bracket''" a]
    show ?thesis by (auto simp: array_end_def)
  qed
qed

lemma dictionary_end_type:
  assumes "dictionary_end d p = Some (SUCCESS a, p1)"
  shows "ast_type_of a = ast_type_of d"
proof -
  obtain b q where acc: "accept p TOKEN_R_BRACE = (b, q)" by (cases "accept p TOKEN_R_BRACE")
  show ?thesis
  proof (cases b)
    case True
    with assms acc show ?thesis by (auto simp: dictionary_end_def with_ast_def)
  next
    case False
    with assms acc with_expected_FAILURE [of "release d q" "''dictionary''" "''closing brace''" a]
    show ?thesis by (auto simp: dictionary_end_def)
  qed
qed

lemma sub_SUCCESS:
  assumes "sub m c k = Some (SUCCESS a, p1)"
  obtains x q where "m = Some (SUCCESS x, q)" and "k x q = Some (SUCCESS a, p1)"
  using assms by (auto simp: sub_def split: option.splits prod.splits result.splits)

lemma comma_then_cases:
  assumes "comma_then close p again fin = r"
  obtains q where "again q = r" | q where "fin q = r"
  using assms by (auto simp: comma_then_def split: prod.splits bool.splits if_splits)

lemma array_loop_type:
  "array_loop n E arr count p = Some (SUCCESS a, p1) \<Longrightarrow> ast_type_of a = ast_type_of arr"
proof (induction n arbitrary: arr count p)
  case 0
  then show ?case by (simp add: array_loop.simps)
next
  case (Suc n)
  from Suc.prems obtain x q where
    k: "(if ast_type_of x = AST_EMPTY then
           Some (with_expected (release x (release arr q)) ''array'' ''expression'')
         else comma_then TOKEN_R_BRACKET q
                (array_loop n E (array_append arr x) (Suc count))
                (array_end (array_append arr x) (Suc count))) = Some (SUCCESS a, p1)"
    by (auto simp: array_loop.simps elim: sub_SUCCESS)
  show ?case
  proof (cases "ast_type_of x = AST_EMPTY")
    case True
    with k with_expected_FAILURE [of "release x (release arr q)" "''array''" "''expression''" a]
    show ?thesis by (auto simp: prod_eq_iff)
  next
    case False
    with k have "comma_then TOKEN_R_BRACKET q
                (array_loop n E (array_append arr x) (Suc count))
                (array_end (array_append arr x) (Suc count)) = Some (SUCCESS a, p1)" by simp
    then show ?thesis
    proof (cases rule: comma_then_cases)
      case (1 q')
      from Suc.IH [OF this] show ?thesis by simp
    next
      case (2 q')
      from array_end_type [OF this] show ?thesis by simp
    qed
  qed
qed

lemma dictionary_loop_type:
  "dictionary_loop n E d p = Some (SUCCESS a, p1) \<Longrightarrow> ast_type_of a = ast_type_of d"
proof (induction n arbitrary: d p)
  case 0
  then show ?case by (simp add: dictionary_loop.simps)
next
  case (Suc n)
  from Suc.prems obtain key q where
    k: "(if ast_type_of key = AST_EMPTY then
           (case with_expected q ''dictionary'' ''key'' of (r, p2) \<Rightarrow>
              Some (r, release d (release key p2)))
         else
           (case accept q TOKEN_COLON of
              (False, p2) \<Rightarrow>
                (case with_expected p2 ''dictionary'' ''colon'' of (r, p3) \<Rightarrow>
                   Some (r, release d (release key p3)))
            | (True, p2) \<Rightarrow>
                sub (E p2) (\<lambda>q. release d (release key q)) (\<lambda>val p3.
                  if ast_type_of val = AST_EMPTY then
                    (case with_expected p3 ''dictionary'' ''value'' of (r, p4) \<Rightarrow>
                       Some (r, release d (release val (release key p4))))
                  else
                    (case alloc (new_node (\<lambda>a. Ast_kv a key val)) p3 of
                       (None, p4) \<Rightarrow>
                         Some (NO_MEMORY, release d (release val (release key p4)))
                     | (Some kv, p4) \<Rightarrow>
                         comma_then TOKEN_R_BRACE p4
                           (dictionary_loop n E (dict_append d kv))
                           (dictionary_end (dict_append d kv)))))) = Some (SUCCESS a, p1)"
    by (auto simp: dictionary_loop.simps elim: sub_SUCCESS)
  have f: "with_expected s place what \<noteq> (SUCCESS a, s')" for s place what s'
    using with_expected_FAILURE [of s place what a] by auto
  from k f have ne: "ast_type_of key \<noteq> AST_EMPTY"
    by (auto split: prod.splits)
  obtain b p2 where acc: "accept q TOKEN_COLON = (b, p2)" by (cases "accept q TOKEN_COLON")
  from k ne acc f have b: "b" by (cases b) (auto split: prod.splits)
  from k ne acc b obtain val p3 where
    v: "(if ast_type_of val = AST_EMPTY then
           (case with_expected p3 ''dictionary'' ''value'' of (r, p4) \<Rightarrow>
              Some (r, release d (release val (release key p4))))
         else
           (case alloc (new_node (\<lambda>a. Ast_kv a key val)) p3 of
              (None, p4) \<Rightarrow> Some (NO_MEMORY, release d (release val (release key p4)))
            | (Some kv, p4) \<Rightarrow>
                comma_then TOKEN_R_BRACE p4
                  (dictionary_loop n E (dict_append d kv))
                  (dictionary_end (dict_append d kv)))) = Some (SUCCESS a, p1)"
    by (auto elim: sub_SUCCESS)
  from v f have nv: "ast_type_of val \<noteq> AST_EMPTY" by (auto split: prod.splits)
  from v nv obtain kv p4 where
    c: "comma_then TOKEN_R_BRACE p4 (dictionary_loop n E (dict_append d kv))
          (dictionary_end (dict_append d kv)) = Some (SUCCESS a, p1)"
    by (auto split: prod.splits option.splits)
  then show ?case
  proof (cases rule: comma_then_cases)
    case (1 q')
    from Suc.IH [OF this] show ?thesis by simp
  next
    case (2 q')
    from dictionary_end_type [OF this] show ?thesis by simp
  qed
qed

lemma alloc_node_type:
  assumes "alloc (new_node f) p = (x, p1)" and "with_ast x = SUCCESS a"
  shows "\<exists>addr. a = f addr"
  using assms new_node_Some [of f p a p1] by (simp add: with_ast_SUCCESS)

lemma boolean_type:
  assumes "boolean p = (SUCCESS a, p1)"
  shows "ast_type_of a = AST_BOOLEAN"
proof -
  obtain r q where e: "expect p (token p) ''literal'' ''boolean value'' = (r, q)"
    by (cases "expect p (token p) ''literal'' ''boolean value''")
  show ?thesis
  proof (cases r)
    case None
    obtain x q2 where al: "alloc (ast_boolean (token q = TOKEN_TRUE)) q = (x, q2)"
      by (cases "alloc (ast_boolean (token q = TOKEN_TRUE)) q")
    with assms e None have "with_ast x = SUCCESS a" by (simp add: boolean_def)
    from alloc_node_type [OF al [unfolded ast_boolean_def] this] show ?thesis by auto
  next
    case (Some f)
    with assms e expect_Some [of p "token p" "''literal''" "''boolean value''" f q a]
    show ?thesis by (simp add: boolean_def)
  qed
qed

lemma parse_number_type:
  assumes "parse_number p = (SUCCESS a, p1)"
  shows "ast_type_of a = AST_NUMBER"
proof -
  obtain r q where e: "expect p (token p) ''literal'' ''integer constant'' = (r, q)"
    by (cases "expect p (token p) ''literal'' ''integer constant''")
  show ?thesis
  proof (cases r)
    case None
    have n: "ast_type_of a = AST_NUMBER"
      if "alloc (ast_number v) q = (x, q2)" and "with_ast x = SUCCESS a" for v x q2
      using alloc_node_type [OF that(1) [unfolded ast_number_def] that(2)] by auto
    have f: "with_error q msg \<noteq> (SUCCESS a, p1)" for msg
      using with_error_FAILURE [of q msg a] by auto
    from assms e None n f show ?thesis
      by (auto simp: parse_number_def Let_def split: if_splits prod.splits)
  next
    case (Some f)
    with assms e expect_Some [of p "token p" "''literal''" "''integer constant''" f q a]
    show ?thesis by (simp add: parse_number_def Let_def)
  qed
qed

lemma parse_string_type:
  assumes "parse_string p = (SUCCESS a, p1)"
  shows "ast_type_of a = AST_STRING"
proof -
  obtain r q where e: "expect p (token p) ''literal'' ''string literal'' = (r, q)"
    by (cases "expect p (token p) ''literal'' ''string literal''")
  show ?thesis
  proof (cases r)
    case None
    have n: "ast_type_of a = AST_STRING"
      if "alloc (ast_string s) q2 = (x, q3)" and "with_ast x = SUCCESS a" for s q2 x q3
      using that
      by (auto simp: alloc_def ast_string_def with_ast_SUCCESS split: prod.splits option.splits)
    from assms e None n show ?thesis
      by (auto simp: parse_string_def split: prod.splits cstring.splits)
  next
    case (Some f)
    with assms e expect_Some [of p "token p" "''literal''" "''string literal''" f q a]
    show ?thesis by (simp add: parse_string_def)
  qed
qed

lemma array_type:
  assumes "array n E p = Some (SUCCESS a, p1)"
  shows "ast_type_of a = AST_ARRAY"
proof -
  obtain r q where e: "expect p TOKEN_L_BRACKET ''array'' ''opening bracket'' = (r, q)"
    by (cases "expect p TOKEN_L_BRACKET ''array'' ''opening bracket''")
  show ?thesis
  proof (cases r)
    case None
    obtain x q2 where al: "alloc ast_array q = (x, q2)" by (cases "alloc ast_array q")
    with assms e None obtain arr where x: "x = Some arr"
      by (cases x) (auto simp: array_def)
    from new_node_Some [of "\<lambda>a. Ast_array a 0 []" q arr q2] al x
    have t: "ast_type_of arr = AST_ARRAY" by (auto simp: ast_array_def)
    obtain b q3 where acc: "accept q2 TOKEN_R_BRACKET = (b, q3)"
      by (cases "accept q2 TOKEN_R_BRACKET")
    from assms e None al x acc t array_loop_type [of n E arr 0 q3 a p1]
    show ?thesis by (cases b) (auto simp: array_def with_ast_def)
  next
    case (Some f)
    with assms e expect_Some [of p TOKEN_L_BRACKET "''array''" "''opening bracket''" f q a]
    show ?thesis by (simp add: array_def)
  qed
qed

lemma dictionary_type:
  assumes "dictionary n E p = Some (SUCCESS a, p1)"
  shows "ast_type_of a = AST_DICTIONARY"
proof -
  obtain r q where e: "expect p TOKEN_L_BRACE ''dictionary'' ''opening brace'' = (r, q)"
    by (cases "expect p TOKEN_L_BRACE ''dictionary'' ''opening brace''")
  show ?thesis
  proof (cases r)
    case None
    obtain x q2 where al: "alloc ast_dict q = (x, q2)" by (cases "alloc ast_dict q")
    with assms e None obtain d where x: "x = Some d"
      by (cases x) (auto simp: dictionary_def)
    from new_node_Some [of "\<lambda>a. Ast_dict a []" q d q2] al x
    have t: "ast_type_of d = AST_DICTIONARY" by (auto simp: ast_dict_def)
    obtain b q3 where acc: "accept q2 TOKEN_R_BRACE = (b, q3)"
      by (cases "accept q2 TOKEN_R_BRACE")
    from assms e None al x acc t dictionary_loop_type [of n E d q3 a p1]
    show ?thesis by (cases b) (auto simp: dictionary_def with_ast_def)
  next
    case (Some f)
    with assms e expect_Some [of p TOKEN_L_BRACE "''dictionary''" "''opening brace''" f q a]
    show ?thesis by (simp add: dictionary_def)
  qed
qed

lemma literal_type:
  assumes "literal n E p = Some (SUCCESS a, p1)"
  shows "ast_type_of a \<in> {AST_BOOLEAN, AST_NUMBER, AST_STRING, AST_ARRAY, AST_DICTIONARY, AST_EMPTY}"
proof -
  obtain t q where pk: "peek p = (t, q)" by (cases "peek p")
  have e: "ast_type_of a = AST_EMPTY"
    if "alloc ast_empty q = (x, q2)" and "with_ast x = SUCCESS a" for x q2
    using alloc_node_type [OF that(1) [unfolded ast_empty_def] that(2)] by auto
  from assms pk boolean_type [of q a p1] parse_number_type [of q a p1] parse_string_type [of q a p1]
    array_type [of n E q a p1] dictionary_type [of n E q a p1] e
  show ?thesis
    by (auto simp: literal_def split: if_splits prod.splits)
qed

lemma primary_literal:
  assumes "peek p = (t, p0)" and "t \<noteq> TOKEN_L_PAREN" and "t \<noteq> TOKEN_IDENTIFIER"
    and "primary n E p = Some (SUCCESS a, p1)"
  shows "ast_type_of a \<noteq> AST_ID" "postfix n E p = Some (SUCCESS a, p1)"
proof -
  from assms have "literal n E p0 = Some (SUCCESS a, p1)" by (simp add: primary_def)
  from literal_type [OF this] show "ast_type_of a \<noteq> AST_ID" by auto
  with assms(4) show "postfix n E p = Some (SUCCESS a, p1)" by (simp add: postfix_def)
qed

lemma primary_identifier:
  assumes "peek p = (TOKEN_IDENTIFIER, p0)" and "primary n E p = Some (SUCCESS a, p1)"
  shows "ast_type_of a = AST_ID" "postfix n E p = postfix_loop n E a p1"
proof -
  note r = peek_ready [OF assms(1)]
  from assms have m: "maybe_identifier p0 = (SUCCESS a, p1)" by (simp add: primary_def)
  have acc: "accept p0 TOKEN_IDENTIFIER = (True, p0\<lparr>ready := False\<rparr>)"
    using r by (simp add: accept_ready)
  have n: "ast_type_of a = AST_ID"
    if "alloc (ast_id s) q = (x, q2)" and "with_ast x = SUCCESS a" for s q x q2
    using that
    by (auto simp: alloc_def ast_id_def with_ast_SUCCESS split: prod.splits option.splits)
  from m acc n show "ast_type_of a = AST_ID"
    by (auto simp: maybe_identifier_def split: prod.splits cstring.splits)
  with assms(2) show "postfix n E p = postfix_loop n E a p1" by (simp add: postfix_def)
qed

subsection \<open>An operator where an operand is expected\<close>

text \<open>
  At a token that starts neither a unary operator nor a primary expression, \<open>literal\<close>
  takes its default branch: \<open>unary\<close> returns a new Empty node and consumes nothing.
\<close>

lemma unary_empty:
  assumes "peek p = (t, p0)"
    and "t \<notin> set [TOKEN_NOT, TOKEN_PLUS, TOKEN_MINUS, TOKEN_L_PAREN, TOKEN_IDENTIFIER,
                    TOKEN_TRUE, TOKEN_FALSE, TOKEN_DEC_NUMBER, TOKEN_BIN_NUMBER,
                    TOKEN_OCT_NUMBER, TOKEN_HEX_NUMBER, TOKEN_STRING,
                    TOKEN_MULTILINE_STRING, TOKEN_L_BRACKET, TOKEN_L_BRACE]"
    and "alloc ast_empty p0 = (Some e, p1)"
  shows "unary n E p = Some (SUCCESS e, p1)" "ast_type_of e = AST_EMPTY"
    "ready p1" "token p1 = t"
proof -
  note r = peek_ready [OF assms(1)]
  show e: "ast_type_of e = AST_EMPTY"
    using new_node_Some [of "\<lambda>a. Ast a AST_EMPTY AST_NONE" p0 e p1] assms(3)
    by (auto simp: ast_empty_def)
  show "ready p1" "token p1 = t"
    using alloc_parser [OF assms(3)] r by simp_all
  have a: "accept_any p [(TOKEN_NOT, AST_NOT), (TOKEN_PLUS, AST_PLUS), (TOKEN_MINUS, AST_MINUS)]
             = (None, p0)"
    using assms(1,2) r by (auto simp: accept_any_def)
  have "literal n E p0 = Some (SUCCESS e, p1)"
    using assms(2,3) r by (auto simp: literal_def with_ast_def)
  then have "primary n E p0 = Some (SUCCESS e, p1)"
    using assms(2) r by (auto simp: primary_def)
  then have "postfix n E p0 = Some (SUCCESS e, p1)"
    using e by (simp add: postfix_def)
  then show "unary n E p = Some (SUCCESS e, p1)"
    using a e by (simp add: unary_def sub_simps with_ast_def)
qed

lemma multiplicative_leading:
  assumes "peek p = (t, p0)"
    and "map_of [(TOKEN_STAR, AST_MUL), (TOKEN_PERCENT, AST_MOD), (TOKEN_SLASH, AST_DIV)] t = Some ret"
    and "alloc ast_empty p0 = (Some e, p1)"
    and "unary n E (p1\<lparr>ready := False\<rparr>) = Some (SUCCESS rhs, p2)"
    and "ast_type_of rhs \<noteq> AST_EMPTY"
    and "alloc (ast_binary AST_ARITHMETIC ret e rhs) p2 = (Some b, p3)"
  shows "multiplicative (Suc n) E p = multiplicative_loop n E b p3
         \<and> ast_type_of e = AST_EMPTY \<and> (\<exists>a. b = Ast_binary a AST_ARITHMETIC ret e rhs)"
proof -
  have shape: "\<exists>a. b = Ast_binary a AST_ARITHMETIC ret e rhs"
    using new_node_Some [of "\<lambda>a. Ast_binary a AST_ARITHMETIC ret e rhs" p2 b p3] assms(6)
    by (simp add: ast_binary_def)
  have t: "t = TOKEN_STAR \<or> t = TOKEN_PERCENT \<or> t = TOKEN_SLASH"
    using assms(2) by (auto split: if_splits)
  then have u: "unary (Suc n) E p = Some (SUCCESS e, p1)" "ready p1" "token p1 = t"
    "ast_type_of e = AST_EMPTY"
    using unary_empty [OF assms(1) _ assms(3)] by auto
  have "accept_any p1 [(TOKEN_STAR, AST_MUL), (TOKEN_PERCENT, AST_MOD), (TOKEN_SLASH, AST_DIV)]
          = (Some ret, p1\<lparr>ready := False\<rparr>)"
    using u(2,3) t assms(2) by (auto simp: accept_any_ready)
  then show ?thesis
    using u(1,4) shape assms(4,5,6)
    by (simp add: multiplicative_def sub_simps multiplicative_loop.simps)
qed

lemma additive_empty:
  assumes "peek p = (t, p0)"
    and "t \<in> set [TOKEN_LT, TOKEN_LE, TOKEN_GT, TOKEN_GE, TOKEN_IN, TOKEN_EQ, TOKEN_NE]"
    and "alloc ast_empty p0 = (Some e, p1)"
  shows "additive (Suc n) E p = Some (SUCCESS e, p1)" "ast_type_of e = AST_EMPTY"
    "ready p1" "token p1 = t"
proof -
  have u: "unary (Suc n) E p = Some (SUCCESS e, p1)" "ast_type_of e = AST_EMPTY"
    "ready p1" "token p1 = t"
    using unary_empty [OF assms(1) _ assms(3)] assms(2) by auto
  show "ast_type_of e = AST_EMPTY" "ready p1" "token p1 = t" by (rule u)+
  have m: "accept_any p1 [(TOKEN_STAR, AST_MUL), (TOKEN_PERCENT, AST_MOD), (TOKEN_SLASH, AST_DIV)]
             = (None, p1)"
    using u(3,4) assms(2) by (auto simp: accept_any_ready)
  have a: "accept_any p1 [(TOKEN_PLUS, AST_ADD), (TOKEN_MINUS, AST_SUB)] = (None, p1)"
    using u(3,4) assms(2) by (auto simp: accept_any_ready)
  have "multiplicative (Suc n) E p = Some (SUCCESS e, p1)"
    using u(1) m by (simp add: multiplicative_def sub_simps multiplicative_loop.simps with_ast_def)
  then show "additive (Suc n) E p = Some (SUCCESS e, p1)"
    using a by (simp add: additive_def sub_simps additive_loop.simps with_ast_def)
qed

lemma relational_leading:
  assumes "peek p = (t, p0)"
    and "map_of [(TOKEN_LT, AST_LT), (TOKEN_LE, AST_LE), (TOKEN_GT, AST_GT),
                 (TOKEN_GE, AST_GE), (TOKEN_IN, AST_IN)] t = Some ret"
    and "alloc ast_empty p0 = (Some e, p1)"
    and "additive (Suc n) E (p1\<lparr>ready := False\<rparr>) = Some (SUCCESS rhs, p2)"
    and "ast_type_of rhs \<noteq> AST_EMPTY"
    and "alloc (ast_binary AST_RELATIONAL ret e rhs) p2 = (Some b, p3)"
  shows "relational (Suc n) E p = Some (SUCCESS b, p3)
         \<and> ast_type_of e = AST_EMPTY \<and> (\<exists>a. b = Ast_binary a AST_RELATIONAL ret e rhs)"
proof -
  have shape: "\<exists>a. b = Ast_binary a AST_RELATIONAL ret e rhs"
    using new_node_Some [of "\<lambda>a. Ast_binary a AST_RELATIONAL ret e rhs" p2 b p3] assms(6)
    by (simp add: ast_binary_def)
  have t: "t = TOKEN_LT \<or> t = TOKEN_LE \<or> t = TOKEN_GT \<or> t = TOKEN_GE \<or> t = TOKEN_IN"
    using assms(2) by (auto split: if_splits)
  then have u: "additive (Suc n) E p = Some (SUCCESS e, p1)" "ready p1" "token p1 = t"
    "ast_type_of e = AST_EMPTY"
    using additive_empty [OF assms(1) _ assms(3)] by auto
  have r: "ret \<noteq> AST_NOT_IN" using assms(2) by (auto split: if_splits)
  have "accept_any p1 [(TOKEN_LT, AST_LT), (TOKEN_LE, AST_LE), (TOKEN_GT, AST_GT),
                       (TOKEN_GE, AST_GE), (TOKEN_IN, AST_IN), (TOKEN_NOT, AST_NOT_IN)]
          = (Some ret, p1\<lparr>ready := False\<rparr>)"
    using u(2,3) t assms(2) by (auto simp: accept_any_ready)
  then show ?thesis
    using u(1,4) r shape assms(4,5,6) by (simp add: relational_def sub_simps with_ast_def)
qed

lemma equality_leading:
  assumes "peek p = (t, p0)"
    and "map_of [(TOKEN_EQ, AST_EQ), (TOKEN_NE, AST_NE)] t = Some ret"
    and "alloc ast_empty p0 = (Some e, p1)"
    and "relational (Suc n) E (p1\<lparr>ready := False\<rparr>) = Some (SUCCESS rhs, p2)"
    and "ast_type_of rhs \<noteq> AST_EMPTY"
    and "alloc (ast_binary AST_RELATIONAL ret e rhs) p2 = (Some b, p3)"
  shows "equality (Suc n) E p = Some (SUCCESS b, p3)
         \<and> ast_type_of e = AST_EMPTY \<and> (\<exists>a. b = Ast_binary a AST_RELATIONAL ret e rhs)"
proof -
  have shape: "\<exists>a. b = Ast_binary a AST_RELATIONAL ret e rhs"
    using new_node_Some [of "\<lambda>a. Ast_binary a AST_RELATIONAL ret e rhs" p2 b p3] assms(6)
    by (simp add: ast_binary_def)
  have t: "t = TOKEN_EQ \<or> t = TOKEN_NE"
    using assms(2) by (auto split: if_splits)
  then have u: "additive (Suc n) E p = Some (SUCCESS e, p1)" "ready p1" "token p1 = t"
    "ast_type_of e = AST_EMPTY"
    using additive_empty [OF assms(1) _ assms(3)] by auto
  have "accept_any p1 [(TOKEN_LT, AST_LT), (TOKEN_LE, AST_LE), (TOKEN_GT, AST_GT),
                       (TOKEN_GE, AST_GE), (TOKEN_IN, AST_IN), (TOKEN_NOT, AST_NOT_IN)]
          = (None, p1)"
    using u(2,3) t by (auto simp: accept_any_ready)
  then have rel: "relational (Suc n) E p = Some (SUCCESS e, p1)"
    using u(1) by (simp add: relational_def sub_simps with_ast_def)
  have "accept_any p1 [(TOKEN_EQ, AST_EQ), (TOKEN_NE, AST_NE)] = (Some ret, p1\<lparr>ready := False\<rparr>)"
    using u(2,3) t assms(2) by (auto simp: accept_any_ready)
  then show ?thesis
    using rel u(4) shape assms(4,5,6) by (simp add: equality_def sub_simps with_ast_def)
qed

subsection \<open>The loop of \<open>sequence\<close>\<close>

lemma sequence_loop_collects:
  "spec_statements n ST p = Some (rest, e, pE) \<Longrightarrow>
   sequence_loop n ST (Ast_seq a xs) x p =
     Some (SUCCESS (Ast_seq a (xs @ x # rest)), release e pE)"
proof (induction n arbitrary: p xs x rest)
  case 0
  then show ?case by simp
next
  case (Suc n)
  from Suc.prems obtain s p1 where st: "ST p = Some (SUCCESS s, p1)"
    by (auto split: option.splits result.splits prod.splits)
  show ?case
  proof (cases "ast_type_of s = AST_EMPTY")
    case True
    with Suc.prems st have "rest = []" "e = s" "pE = p1" by simp_all
    with st True show ?thesis by (simp add: sequence_loop.simps with_ast_def)
  next
    case False
    with Suc.prems st obtain more where
      more: "spec_statements n ST p1 = Some (more, e, pE)" and rest: "rest = s # more"
      by (auto split: option.splits)
    from Suc.IH [OF more, of "xs @ [x]" s] st False rest
    show ?thesis by (simp add: sequence_loop.simps)
  qed
qed

subsection \<open>A comma before the closing delimiter\<close>







subsection \<open>An operator at the start of a statement\<close>

text \<open>
  Every operator rule returns either the node of the rule below it or a node that has it
  as its left operand (the condition, for a ternary node), and the loops of the rules go
  on with the node they have built as the left operand of the next one. So the node that
  a rule builds at the start of a statement is found from the statement's node by going
  down left operands.
\<close>

lemma on_left_refl [simp]: "on_left x x"
  by (cases x) simp_all

lemma on_left_trans: "on_left x y \<Longrightarrow> on_left y z \<Longrightarrow> on_left x z"
  by (induction x z rule: on_left.induct) auto

lemma on_left_binary:
  assumes "alloc (ast_binary ty ret l r) p = (Some b, q)"
  shows "on_left l b" "\<exists>a. b = Ast_binary a ty ret l r"
proof -
  from new_node_Some [of "\<lambda>a. Ast_binary a ty ret l r" p b q] assms
  show "\<exists>a. b = Ast_binary a ty ret l r" by (simp add: ast_binary_def)
  then show "on_left l b" by auto
qed

lemma unary_at_operator:
  assumes "peek p = (t, p0)"
    and "t \<notin> set [TOKEN_NOT, TOKEN_PLUS, TOKEN_MINUS, TOKEN_L_PAREN, TOKEN_IDENTIFIER,
                    TOKEN_TRUE, TOKEN_FALSE, TOKEN_DEC_NUMBER, TOKEN_BIN_NUMBER,
                    TOKEN_OCT_NUMBER, TOKEN_HEX_NUMBER, TOKEN_STRING,
                    TOKEN_MULTILINE_STRING, TOKEN_L_BRACKET, TOKEN_L_BRACE]"
    and "alloc ast_empty p0 = (x, p1)"
  shows "unary n E p = Some (with_ast x, p1)"
proof (cases x)
  case (Some e)
  with unary_empty(1) [OF assms(1,2), of e p1 n E] assms(3) show ?thesis
    by (simp add: with_ast_def)
next
  case None
  note r = peek_ready [OF assms(1)]
  have a: "accept_any p [(TOKEN_NOT, AST_NOT), (TOKEN_PLUS, AST_PLUS), (TOKEN_MINUS, AST_MINUS)]
             = (None, p0)"
    using assms(1,2) r by (auto simp: accept_any_def)
  have "literal n E p0 = Some (NO_MEMORY, p1)"
    using assms(2,3) r None by (auto simp: literal_def with_ast_def)
  then have "primary n E p0 = Some (NO_MEMORY, p1)"
    using assms(2) r by (auto simp: primary_def)
  then have "postfix n E p0 = Some (NO_MEMORY, p1)"
    by (simp add: postfix_def)
  then show ?thesis
    using a None by (simp add: unary_def sub_simps with_ast_def)
qed

lemma failure_not_SUCCESS:
  "with_expected s place what \<noteq> (SUCCESS a, s')" "with_error s msg \<noteq> (SUCCESS a, s')"
  using with_expected_FAILURE [of s place what a] with_error_FAILURE [of s msg a] by auto

lemma binary_step:
  assumes "(if ast_type_of rhs = AST_EMPTY then Some (with_expected s place what)
            else (case alloc (ast_binary ty ret l rhs) p2 of
                    (None, p3) \<Rightarrow> Some (NO_MEMORY, c p3)
                  | (Some b, p3) \<Rightarrow> k b p3)) = Some (SUCCESS r, q)"
  obtains b p3 where "alloc (ast_binary ty ret l rhs) p2 = (Some b, p3)"
    and "k b p3 = Some (SUCCESS r, q)" and "ast_type_of rhs \<noteq> AST_EMPTY"
proof -
  have ne: "ast_type_of rhs \<noteq> AST_EMPTY"
    using assms failure_not_SUCCESS(1) [of s place what r q] by (auto split: if_splits)
  obtain x p3 where al: "alloc (ast_binary ty ret l rhs) p2 = (x, p3)"
    by (cases "alloc (ast_binary ty ret l rhs) p2")
  with assms ne obtain b where "x = Some b" "k b p3 = Some (SUCCESS r, q)"
    by (cases x) auto
  with al ne that show ?thesis by blast
qed

lemma multiplicative_loop_left:
  "multiplicative_loop n E a p = Some (SUCCESS r, q) \<Longrightarrow> on_left a r"
proof (induction n arbitrary: a p)
  case 0
  then show ?case by (simp add: multiplicative_loop.simps)
next
  case (Suc n)
  obtain ret p1 where acc:
    "accept_any p [(TOKEN_STAR, AST_MUL), (TOKEN_PERCENT, AST_MOD), (TOKEN_SLASH, AST_DIV)] = (ret, p1)"
    by (cases "accept_any p [(TOKEN_STAR, AST_MUL), (TOKEN_PERCENT, AST_MOD), (TOKEN_SLASH, AST_DIV)]")
  show ?case
  proof (cases ret)
    case None
    with Suc.prems acc show ?thesis by (simp add: multiplicative_loop.simps with_ast_def)
  next
    case (Some op)
    with Suc.prems acc obtain rhs p2 where
      "(if ast_type_of rhs = AST_EMPTY then
          Some (with_expected (release rhs (release a p2)) ''multiplicative'' ''expression'')
        else (case alloc (ast_binary AST_ARITHMETIC op a rhs) p2 of
                (None, p3) \<Rightarrow> Some (NO_MEMORY, release rhs (release a p3))
              | (Some b, p3) \<Rightarrow> multiplicative_loop n E b p3)) = Some (SUCCESS r, q)"
      by (auto simp: multiplicative_loop.simps elim: sub_SUCCESS)
    then obtain b p3 where al: "alloc (ast_binary AST_ARITHMETIC op a rhs) p2 = (Some b, p3)"
      and k: "multiplicative_loop n E b p3 = Some (SUCCESS r, q)"
      by (rule binary_step)
    from on_left_trans [OF on_left_binary(1) [OF al] Suc.IH [OF k]] show ?thesis .
  qed
qed

lemma additive_loop_left:
  "additive_loop n E a p = Some (SUCCESS r, q) \<Longrightarrow> on_left a r"
proof (induction n arbitrary: a p)
  case 0
  then show ?case by (simp add: additive_loop.simps)
next
  case (Suc n)
  obtain ret p1 where acc:
    "accept_any p [(TOKEN_PLUS, AST_ADD), (TOKEN_MINUS, AST_SUB)] = (ret, p1)"
    by (cases "accept_any p [(TOKEN_PLUS, AST_ADD), (TOKEN_MINUS, AST_SUB)]")
  show ?case
  proof (cases ret)
    case None
    with Suc.prems acc show ?thesis by (simp add: additive_loop.simps with_ast_def)
  next
    case (Some op)
    with Suc.prems acc obtain rhs p2 where
      "(if ast_type_of rhs = AST_EMPTY then
          Some (with_expected (release rhs (release a p2)) ''additive'' ''expression'')
        else (case alloc (ast_binary AST_ARITHMETIC op a rhs) p2 of
                (None, p3) \<Rightarrow> Some (NO_MEMORY, release rhs (release a p3))
              | (Some b, p3) \<Rightarrow> additive_loop n E b p3)) = Some (SUCCESS r, q)"
      by (auto simp: additive_loop.simps elim: sub_SUCCESS)
    then obtain b p3 where al: "alloc (ast_binary AST_ARITHMETIC op a rhs) p2 = (Some b, p3)"
      and k: "additive_loop n E b p3 = Some (SUCCESS r, q)"
      by (rule binary_step)
    from on_left_trans [OF on_left_binary(1) [OF al] Suc.IH [OF k]] show ?thesis .
  qed
qed

lemma logical_and_loop_left:
  "logical_and_loop n E a p = Some (SUCCESS r, q) \<Longrightarrow> on_left a r"
proof (induction n arbitrary: a p)
  case 0
  then show ?case by (simp add: logical_and_loop.simps)
next
  case (Suc n)
  obtain c p1 where acc: "accept p TOKEN_AND = (c, p1)" by (cases "accept p TOKEN_AND")
  show ?case
  proof (cases c)
    case False
    with Suc.prems acc show ?thesis by (simp add: logical_and_loop.simps with_ast_def)
  next
    case True
    with Suc.prems acc obtain rhs p2 where
      "(if ast_type_of rhs = AST_EMPTY then
          Some (with_expected (release rhs (release a p2)) ''logical and'' ''expression'')
        else (case alloc (ast_binary AST_LOGICAL AST_AND a rhs) p2 of
                (None, p3) \<Rightarrow> Some (NO_MEMORY, release rhs (release a p3))
              | (Some b, p3) \<Rightarrow> logical_and_loop n E b p3)) = Some (SUCCESS r, q)"
      by (auto simp: logical_and_loop.simps elim: sub_SUCCESS)
    then obtain b p3 where al: "alloc (ast_binary AST_LOGICAL AST_AND a rhs) p2 = (Some b, p3)"
      and k: "logical_and_loop n E b p3 = Some (SUCCESS r, q)"
      by (rule binary_step)
    from on_left_trans [OF on_left_binary(1) [OF al] Suc.IH [OF k]] show ?thesis .
  qed
qed

lemma logical_or_loop_left:
  "logical_or_loop n E a p = Some (SUCCESS r, q) \<Longrightarrow> on_left a r"
proof (induction n arbitrary: a p)
  case 0
  then show ?case by (simp add: logical_or_loop.simps)
next
  case (Suc n)
  obtain c p1 where acc: "accept p TOKEN_OR = (c, p1)" by (cases "accept p TOKEN_OR")
  show ?case
  proof (cases c)
    case False
    with Suc.prems acc show ?thesis by (simp add: logical_or_loop.simps with_ast_def)
  next
    case True
    with Suc.prems acc obtain rhs p2 where
      "(if ast_type_of rhs = AST_EMPTY then
          Some (with_expected (release rhs (release a p2)) ''logical or'' ''expression'')
        else (case alloc (ast_binary AST_LOGICAL AST_OR a rhs) p2 of
                (None, p3) \<Rightarrow> Some (NO_MEMORY, release rhs (release a p3))
              | (Some b, p3) \<Rightarrow> logical_or_loop n E b p3)) = Some (SUCCESS r, q)"
      by (auto simp: logical_or_loop.simps elim: sub_SUCCESS)
    then obtain b p3 where al: "alloc (ast_binary AST_LOGICAL AST_OR a rhs) p2 = (Some b, p3)"
      and k: "logical_or_loop n E b p3 = Some (SUCCESS r, q)"
      by (rule binary_step)
    from on_left_trans [OF on_left_binary(1) [OF al] Suc.IH [OF k]] show ?thesis .
  qed
qed

lemma binary_result:
  assumes "(if ast_type_of rhs = AST_EMPTY then Some (with_expected s place what)
            else (case alloc (ast_binary ty ret l rhs) p2 of
                    (None, p3) \<Rightarrow> Some (NO_MEMORY, c p3)
                  | (Some b, p3) \<Rightarrow> Some (with_ast (Some b), p3))) = Some (SUCCESS r, q)"
  shows "on_left l r" "\<exists>a. r = Ast_binary a ty ret l rhs" "ast_type_of rhs \<noteq> AST_EMPTY"
    "alloc (ast_binary ty ret l rhs) p2 = (Some r, q)"
proof -
  from assms obtain b p3 where al: "alloc (ast_binary ty ret l rhs) p2 = (Some b, p3)"
    and k: "Some (with_ast (Some b), p3) = Some (SUCCESS r, q)"
    and ne: "ast_type_of rhs \<noteq> AST_EMPTY"
    by (rule binary_step [where k = "\<lambda>b p3. Some (with_ast (Some b), p3)"])
  from k have "b = r" "p3 = q" by (simp_all add: with_ast_def)
  with al on_left_binary [OF al] ne
  show "on_left l r" "\<exists>a. r = Ast_binary a ty ret l rhs" "ast_type_of rhs \<noteq> AST_EMPTY"
    "alloc (ast_binary ty ret l rhs) p2 = (Some r, q)"
    by simp_all
qed

lemma additive_left:
  assumes "additive n E p = Some (SUCCESS r, q)"
  shows "\<exists>r0 q0. multiplicative n E p = Some (SUCCESS r0, q0) \<and> on_left r0 r"
  using assms unfolding additive_def
  by (auto elim!: sub_SUCCESS dest: additive_loop_left)

lemma relational_left:
  assumes "relational n E p = Some (SUCCESS r, q)"
  shows "\<exists>r0 q0. additive n E p = Some (SUCCESS r0, q0) \<and> on_left r0 r"
proof -
  from assms obtain lhs p1 where a: "additive n E p = Some (SUCCESS lhs, p1)"
    and k: "(case accept_any p1 [(TOKEN_LT, AST_LT), (TOKEN_LE, AST_LE), (TOKEN_GT, AST_GT),
                           (TOKEN_GE, AST_GE), (TOKEN_IN, AST_IN), (TOKEN_NOT, AST_NOT_IN)] of
         (None, p2) \<Rightarrow> Some (with_ast (Some lhs), p2)
       | (Some ret, p2) \<Rightarrow>
           (case (if ret = AST_NOT_IN then accept p2 TOKEN_IN else (True, p2)) of
              (False, p3) \<Rightarrow>
                Some (with_error (release lhs p3)
                        (''expected '' @ [CHR 0x60] @ ''in'' @ [QUOTE] @ '' after ''
                         @ [CHR 0x60] @ ''not'' @ [QUOTE]))
            | (True, p3) \<Rightarrow>
                sub (additive n E p3) (release lhs) (\<lambda>rhs p4.
                  if ast_type_of rhs = AST_EMPTY then
                    Some (with_expected (release rhs (release lhs p4))
                            ''relational'' ''expression'')
                  else
                    (case alloc (ast_binary AST_RELATIONAL ret lhs rhs) p4 of
                       (None, p5) \<Rightarrow> Some (NO_MEMORY, release rhs (release lhs p5))
                     | (Some b, p5) \<Rightarrow> Some (with_ast (Some b), p5))))) = Some (SUCCESS r, q)"
    unfolding relational_def by (rule sub_SUCCESS)
  obtain x p2 where acc: "accept_any p1 [(TOKEN_LT, AST_LT), (TOKEN_LE, AST_LE), (TOKEN_GT, AST_GT),
                           (TOKEN_GE, AST_GE), (TOKEN_IN, AST_IN), (TOKEN_NOT, AST_NOT_IN)] = (x, p2)"
    by (cases "accept_any p1 [(TOKEN_LT, AST_LT), (TOKEN_LE, AST_LE), (TOKEN_GT, AST_GT),
                           (TOKEN_GE, AST_GE), (TOKEN_IN, AST_IN), (TOKEN_NOT, AST_NOT_IN)]")
  have "on_left lhs r"
  proof (cases x)
    case None
    with k acc show ?thesis by (simp add: with_ast_def)
  next
    case (Some ret)
    obtain c p3 where c: "(if ret = AST_NOT_IN then accept p2 TOKEN_IN else (True, p2)) = (c, p3)"
      by (cases "if ret = AST_NOT_IN then accept p2 TOKEN_IN else (True, p2)")
    show ?thesis
    proof (cases c)
      case False
      with k acc Some c failure_not_SUCCESS(2) show ?thesis by simp
    next
      case True
      with k acc Some c obtain rhs p4 where
        "(if ast_type_of rhs = AST_EMPTY then
            Some (with_expected (release rhs (release lhs p4)) ''relational'' ''expression'')
          else (case alloc (ast_binary AST_RELATIONAL ret lhs rhs) p4 of
                  (None, p5) \<Rightarrow> Some (NO_MEMORY, release rhs (release lhs p5))
                | (Some b, p5) \<Rightarrow> Some (with_ast (Some b), p5))) = Some (SUCCESS r, q)"
        by (auto elim: sub_SUCCESS)
      then show ?thesis by (rule binary_result(1))
    qed
  qed
  with a show ?thesis by blast
qed

lemma equality_left:
  assumes "equality n E p = Some (SUCCESS r, q)"
  shows "\<exists>r0 q0. relational n E p = Some (SUCCESS r0, q0) \<and> on_left r0 r"
proof -
  from assms obtain lhs p1 where a: "relational n E p = Some (SUCCESS lhs, p1)"
    and k: "(case accept_any p1 [(TOKEN_EQ, AST_EQ), (TOKEN_NE, AST_NE)] of
         (None, p2) \<Rightarrow> Some (with_ast (Some lhs), p2)
       | (Some ret, p2) \<Rightarrow>
           sub (relational n E p2) (release lhs) (\<lambda>rhs p3.
             if ast_type_of rhs = AST_EMPTY then
               Some (with_expected (release rhs (release lhs p3)) ''equality'' ''expression'')
             else
               (case alloc (ast_binary AST_RELATIONAL ret lhs rhs) p3 of
                  (None, p4) \<Rightarrow> Some (NO_MEMORY, release rhs (release lhs p4))
                | (Some b, p4) \<Rightarrow> Some (with_ast (Some b), p4)))) = Some (SUCCESS r, q)"
    unfolding equality_def by (rule sub_SUCCESS)
  obtain x p2 where acc: "accept_any p1 [(TOKEN_EQ, AST_EQ), (TOKEN_NE, AST_NE)] = (x, p2)"
    by (cases "accept_any p1 [(TOKEN_EQ, AST_EQ), (TOKEN_NE, AST_NE)]")
  have "on_left lhs r"
  proof (cases x)
    case None
    with k acc show ?thesis by (simp add: with_ast_def)
  next
    case (Some ret)
    with k acc obtain rhs p3 where
      "(if ast_type_of rhs = AST_EMPTY then
          Some (with_expected (release rhs (release lhs p3)) ''equality'' ''expression'')
        else (case alloc (ast_binary AST_RELATIONAL ret lhs rhs) p3 of
                (None, p4) \<Rightarrow> Some (NO_MEMORY, release rhs (release lhs p4))
              | (Some b, p4) \<Rightarrow> Some (with_ast (Some b), p4))) = Some (SUCCESS r, q)"
      by (auto elim: sub_SUCCESS)
    then show ?thesis by (rule binary_result(1))
  qed
  with a show ?thesis by blast
qed

lemma logical_and_left:
  assumes "logical_and n E p = Some (SUCCESS r, q)"
  shows "\<exists>r0 q0. equality n E p = Some (SUCCESS r0, q0) \<and> on_left r0 r"
  using assms unfolding logical_and_def
  by (auto elim!: sub_SUCCESS dest: logical_and_loop_left)

lemma logical_or_left:
  assumes "logical_or n E p = Some (SUCCESS r, q)"
  shows "\<exists>r0 q0. logical_and n E p = Some (SUCCESS r0, q0) \<and> on_left r0 r"
  using assms unfolding logical_or_def
  by (auto elim!: sub_SUCCESS dest: logical_or_loop_left)

lemma on_left_ternary:
  assumes "alloc (ast_ternary c t e) p = (Some b, q)"
  shows "on_left c b"
proof -
  from new_node_Some [of "\<lambda>a. Ast_ternary a c t e" p b q] assms
  have "\<exists>a. b = Ast_ternary a c t e" by (simp add: ast_ternary_def)
  then show "on_left c b" by auto
qed

lemma conditional_left:
  assumes "conditional n E p = Some (SUCCESS r, q)"
  shows "\<exists>r0 q0. logical_or n E p = Some (SUCCESS r0, q0) \<and> on_left r0 r"
proof -
  from assms obtain exp p1 where a: "logical_or n E p = Some (SUCCESS exp, p1)"
    and k: "(case accept p1 TOKEN_TERNARY of
         (False, p2) \<Rightarrow> Some (with_ast (Some exp), p2)
       | (True, p2) \<Rightarrow>
           sub (E p2) (release exp) (\<lambda>conseq p3.
             if ast_type_of conseq = AST_EMPTY then
               Some (with_expected (release conseq (release exp p3)) ''ternary'' ''true clause'')
             else
               (case accept p3 TOKEN_COLON of
                  (False, p4) \<Rightarrow>
                    Some (with_expected (release conseq (release exp p4)) ''ternary'' ''colon'')
                | (True, p4) \<Rightarrow>
                    sub (E p4) (\<lambda>q. release conseq (release exp q)) (\<lambda>alt p5.
                      if ast_type_of alt = AST_EMPTY then
                        Some (with_expected (release alt (release conseq (release exp p5)))
                                ''ternary'' ''false clause'')
                      else
                        (case alloc (ast_ternary exp conseq alt) p5 of
                           (None, p6) \<Rightarrow>
                             Some (NO_MEMORY, release alt (release conseq (release exp p6)))
                         | (Some t, p6) \<Rightarrow> Some (with_ast (Some t), p6)))))) = Some (SUCCESS r, q)"
    unfolding conditional_def by (rule sub_SUCCESS)
  obtain c p2 where acc: "accept p1 TOKEN_TERNARY = (c, p2)" by (cases "accept p1 TOKEN_TERNARY")
  have "on_left exp r"
  proof (cases c)
    case False
    with k acc show ?thesis by (simp add: with_ast_def)
  next
    case True
    with k acc obtain conseq p3 where k3:
      "(if ast_type_of conseq = AST_EMPTY then
               Some (with_expected (release conseq (release exp p3)) ''ternary'' ''true clause'')
             else
               (case accept p3 TOKEN_COLON of
                  (False, p4) \<Rightarrow>
                    Some (with_expected (release conseq (release exp p4)) ''ternary'' ''colon'')
                | (True, p4) \<Rightarrow>
                    sub (E p4) (\<lambda>q. release conseq (release exp q)) (\<lambda>alt p5.
                      if ast_type_of alt = AST_EMPTY then
                        Some (with_expected (release alt (release conseq (release exp p5)))
                                ''ternary'' ''false clause'')
                      else
                        (case alloc (ast_ternary exp conseq alt) p5 of
                           (None, p6) \<Rightarrow>
                             Some (NO_MEMORY, release alt (release conseq (release exp p6)))
                         | (Some t, p6) \<Rightarrow> Some (with_ast (Some t), p6))))) = Some (SUCCESS r, q)"
      by (auto elim: sub_SUCCESS)
    obtain c2 p4 where acc2: "accept p3 TOKEN_COLON = (c2, p4)" by (cases "accept p3 TOKEN_COLON")
    from k3 failure_not_SUCCESS(1) have ne: "ast_type_of conseq \<noteq> AST_EMPTY"
      by (auto split: if_splits)
    with k3 acc2 failure_not_SUCCESS(1) have c2 by (cases c2) auto
    with k3 acc2 ne obtain alt p5 where k5:
      "(if ast_type_of alt = AST_EMPTY then
          Some (with_expected (release alt (release conseq (release exp p5)))
                  ''ternary'' ''false clause'')
        else
          (case alloc (ast_ternary exp conseq alt) p5 of
             (None, p6) \<Rightarrow>
               Some (NO_MEMORY, release alt (release conseq (release exp p6)))
           | (Some t, p6) \<Rightarrow> Some (with_ast (Some t), p6))) = Some (SUCCESS r, q)"
      by (auto elim: sub_SUCCESS)
    from k5 failure_not_SUCCESS(1) have ne2: "ast_type_of alt \<noteq> AST_EMPTY"
      by (auto split: if_splits)
    obtain x p6 where al: "alloc (ast_ternary exp conseq alt) p5 = (x, p6)"
      by (cases "alloc (ast_ternary exp conseq alt) p5")
    with k5 ne2 have "x = Some r" by (cases x) (auto simp: with_ast_def)
    with al on_left_ternary show ?thesis by blast
  qed
  with a show ?thesis by blast
qed

lemma assignment_left:
  assumes "assignment n E p = Some (SUCCESS r, q)"
  shows "\<exists>r0 q0. conditional n E p = Some (SUCCESS r0, q0) \<and> on_left r0 r"
proof -
  from assms obtain lhs p1 where a: "conditional n E p = Some (SUCCESS lhs, p1)"
    and k: "(case accept_any p1 [(TOKEN_ASSIGN, AST_ASSIGN), (TOKEN_ADD_ASSIGN, AST_ADD_ASSIGN),
                           (TOKEN_SUB_ASSIGN, AST_SUB_ASSIGN), (TOKEN_MUL_ASSIGN, AST_MUL_ASSIGN),
                           (TOKEN_DIV_ASSIGN, AST_DIV_ASSIGN), (TOKEN_MOD_ASSIGN, AST_MOD_ASSIGN)] of
         (None, p2) \<Rightarrow> Some (with_ast (Some lhs), p2)
       | (Some ret, p2) \<Rightarrow>
           if ast_type_of lhs \<noteq> AST_ID then
             Some (with_error (release lhs p2) ''assignment target must be an id'')
           else
             sub (E p2) (release lhs) (\<lambda>rhs p3.
               if ast_type_of rhs = AST_EMPTY then
                 Some (with_expected (release rhs (release lhs p3)) ''assignment'' ''expression'')
               else
                 (case alloc (ast_binary AST_ASSIGNMENT ret lhs rhs) p3 of
                    (None, p4) \<Rightarrow> Some (NO_MEMORY, release rhs (release lhs p4))
                  | (Some b, p4) \<Rightarrow> Some (with_ast (Some b), p4)))) = Some (SUCCESS r, q)"
    unfolding assignment_def by (rule sub_SUCCESS)
  obtain x p2 where acc: "accept_any p1 [(TOKEN_ASSIGN, AST_ASSIGN), (TOKEN_ADD_ASSIGN, AST_ADD_ASSIGN),
                           (TOKEN_SUB_ASSIGN, AST_SUB_ASSIGN), (TOKEN_MUL_ASSIGN, AST_MUL_ASSIGN),
                           (TOKEN_DIV_ASSIGN, AST_DIV_ASSIGN), (TOKEN_MOD_ASSIGN, AST_MOD_ASSIGN)] = (x, p2)"
    by (cases "accept_any p1 [(TOKEN_ASSIGN, AST_ASSIGN), (TOKEN_ADD_ASSIGN, AST_ADD_ASSIGN),
                           (TOKEN_SUB_ASSIGN, AST_SUB_ASSIGN), (TOKEN_MUL_ASSIGN, AST_MUL_ASSIGN),
                           (TOKEN_DIV_ASSIGN, AST_DIV_ASSIGN), (TOKEN_MOD_ASSIGN, AST_MOD_ASSIGN)]")
  have "on_left lhs r"
  proof (cases x)
    case None
    with k acc show ?thesis by (simp add: with_ast_def)
  next
    case (Some ret)
    with k acc failure_not_SUCCESS(2) have ty: "ast_type_of lhs = AST_ID"
      by (auto split: if_splits)
    with Some k acc obtain rhs p3 where
      "(if ast_type_of rhs = AST_EMPTY then
          Some (with_expected (release rhs (release lhs p3)) ''assignment'' ''expression'')
        else (case alloc (ast_binary AST_ASSIGNMENT ret lhs rhs) p3 of
                (None, p4) \<Rightarrow> Some (NO_MEMORY, release rhs (release lhs p4))
              | (Some b, p4) \<Rightarrow> Some (with_ast (Some b), p4))) = Some (SUCCESS r, q)"
      by (auto elim: sub_SUCCESS)
    then show ?thesis by (rule binary_result(1))
  qed
  with a show ?thesis by blast
qed

lemma expression_left:
  assumes "expression n p = Some (SUCCESS r, q)"
  shows "\<exists>k E. n = Suc k \<and> E = expression k
           \<and> (\<exists>r0 q0. equality k E p = Some (SUCCESS r0, q0) \<and> on_left r0 r)
           \<and> (\<exists>r0 q0. relational k E p = Some (SUCCESS r0, q0) \<and> on_left r0 r)
           \<and> (\<exists>r0 q0. multiplicative k E p = Some (SUCCESS r0, q0) \<and> on_left r0 r)"
proof (cases n)
  case 0
  with assms show ?thesis by (simp add: expression.simps)
next
  case (Suc k)
  with assms have "assignment k (expression k) p = Some (SUCCESS r, q)"
    by (simp add: expression.simps)
  from assignment_left [OF this] obtain r1 q1 where
    1: "conditional k (expression k) p = Some (SUCCESS r1, q1)" "on_left r1 r" by blast
  from conditional_left [OF 1(1)] obtain r2 q2 where
    2: "logical_or k (expression k) p = Some (SUCCESS r2, q2)" "on_left r2 r1" by blast
  from logical_or_left [OF 2(1)] obtain r3 q3 where
    3: "logical_and k (expression k) p = Some (SUCCESS r3, q3)" "on_left r3 r2" by blast
  from logical_and_left [OF 3(1)] obtain r4 q4 where
    4: "equality k (expression k) p = Some (SUCCESS r4, q4)" "on_left r4 r3" by blast
  from equality_left [OF 4(1)] obtain r5 q5 where
    5: "relational k (expression k) p = Some (SUCCESS r5, q5)" "on_left r5 r4" by blast
  from relational_left [OF 5(1)] obtain r6 q6 where
    6: "additive k (expression k) p = Some (SUCCESS r6, q6)" "on_left r6 r5" by blast
  from additive_left [OF 6(1)] obtain r7 q7 where
    7: "multiplicative k (expression k) p = Some (SUCCESS r7, q7)" "on_left r7 r6" by blast
  have e4: "on_left r4 r"
    using 1(2) 2(2) 3(2) 4(2) on_left_trans by blast
  then have e5: "on_left r5 r" using 5(2) on_left_trans by blast
  then have e7: "on_left r7 r" using 6(2) 7(2) on_left_trans by blast
  from Suc 4(1) 5(1) 7(1) e4 e5 e7 show ?thesis by blast
qed

lemma statement_expression:
  assumes "peek p = (t, p0)"
    and "t \<notin> set [TOKEN_END, TOKEN_IF, TOKEN_FOREACH, TOKEN_BREAK, TOKEN_CONTINUE]"
  shows "statement n S E p = E p0"
  using assms by (simp add: statement_def)

lemma additive_at_operator:
  assumes "peek p = (t, p0)"
    and "t \<in> set [TOKEN_LT, TOKEN_LE, TOKEN_GT, TOKEN_GE, TOKEN_IN, TOKEN_EQ, TOKEN_NE]"
    and "additive n E p = Some (SUCCESS lhs, p1)"
  shows "alloc ast_empty p0 = (Some lhs, p1)" "ast_type_of lhs = AST_EMPTY"
    "ready p1" "token p1 = t"
proof -
  from assms(3) obtain m pm where m: "multiplicative n E p = Some (SUCCESS m, pm)"
    and am: "additive_loop n E m pm = Some (SUCCESS lhs, p1)"
    unfolding additive_def by (rule sub_SUCCESS)
  from m obtain u pu where u: "unary n E p = Some (SUCCESS u, pu)"
    and mu: "multiplicative_loop n E u pu = Some (SUCCESS m, pm)"
    unfolding multiplicative_def by (rule sub_SUCCESS)
  obtain x q1 where al: "alloc ast_empty p0 = (x, q1)" by (cases "alloc ast_empty p0")
  from unary_at_operator [OF assms(1) _ al, of n E] assms(2) u
  have "Some (with_ast x, q1) = Some (SUCCESS u, pu)" by auto
  then have x: "x = Some u" "q1 = pu" by (simp_all add: with_ast_SUCCESS)
  note r = peek_ready [OF assms(1)]
  from alloc_parser [OF al] r x have rp: "ready pu" "token pu = t" by simp_all
  from mu obtain k where n: "n = Suc k" by (cases n) (simp_all add: multiplicative_loop.simps)
  have "accept_any pu [(TOKEN_STAR, AST_MUL), (TOKEN_PERCENT, AST_MOD), (TOKEN_SLASH, AST_DIV)]
          = (None, pu)"
    using rp assms(2) by (auto simp: accept_any_ready)
  with mu n have mm: "m = u" "pm = pu"
    by (simp_all add: multiplicative_loop.simps with_ast_def)
  have "accept_any pu [(TOKEN_PLUS, AST_ADD), (TOKEN_MINUS, AST_SUB)] = (None, pu)"
    using rp assms(2) by (auto simp: accept_any_ready)
  with am n mm have ll: "lhs = u" "p1 = pu"
    by (simp_all add: additive_loop.simps with_ast_def)
  from al x ll show "alloc ast_empty p0 = (Some lhs, p1)" by simp
  from unary_empty(2) [OF assms(1) _ this] assms(2) show "ast_type_of lhs = AST_EMPTY" by auto
  from rp ll show "ready p1" "token p1 = t" by simp_all
qed

lemma multiplicative_head:
  assumes "peek p = (t, p0)"
    and "map_of [(TOKEN_STAR, AST_MUL), (TOKEN_PERCENT, AST_MOD), (TOKEN_SLASH, AST_DIV)] t = Some ret"
    and "multiplicative n E p = Some (SUCCESS r, q)"
  shows "\<exists>a e rhs. on_left (Ast_binary a AST_ARITHMETIC ret e rhs) r
           \<and> ast_type_of e = AST_EMPTY \<and> ast_type_of rhs \<noteq> AST_EMPTY"
proof -
  have t: "t = TOKEN_STAR \<or> t = TOKEN_PERCENT \<or> t = TOKEN_SLASH"
    using assms(2) by (auto split: if_splits)
  from assms(3) obtain u pu where u: "unary n E p = Some (SUCCESS u, pu)"
    and mu: "multiplicative_loop n E u pu = Some (SUCCESS r, q)"
    unfolding multiplicative_def by (rule sub_SUCCESS)
  obtain x q1 where al: "alloc ast_empty p0 = (x, q1)" by (cases "alloc ast_empty p0")
  from unary_at_operator [OF assms(1) _ al, of n E] t u
  have "Some (with_ast x, q1) = Some (SUCCESS u, pu)" by auto
  then have x: "x = Some u" "q1 = pu" by (simp_all add: with_ast_SUCCESS)
  note r = peek_ready [OF assms(1)]
  from alloc_parser [OF al] r x have rp: "ready pu" "token pu = t" by simp_all
  from al x have al': "alloc ast_empty p0 = (Some u, pu)" by simp
  from unary_empty(2) [OF assms(1) _ al'] t have e: "ast_type_of u = AST_EMPTY" by auto
  from mu obtain k where n: "n = Suc k" by (cases n) (simp_all add: multiplicative_loop.simps)
  have "accept_any pu [(TOKEN_STAR, AST_MUL), (TOKEN_PERCENT, AST_MOD), (TOKEN_SLASH, AST_DIV)]
          = (Some ret, pu\<lparr>ready := False\<rparr>)"
    using rp t assms(2) by (auto simp: accept_any_ready)
  with mu n obtain rhs p2 where
    "(if ast_type_of rhs = AST_EMPTY then
        Some (with_expected (release rhs (release u p2)) ''multiplicative'' ''expression'')
      else (case alloc (ast_binary AST_ARITHMETIC ret u rhs) p2 of
              (None, p3) \<Rightarrow> Some (NO_MEMORY, release rhs (release u p3))
            | (Some b, p3) \<Rightarrow> multiplicative_loop k E b p3)) = Some (SUCCESS r, q)"
    by (auto simp: multiplicative_loop.simps elim: sub_SUCCESS)
  then obtain b p3 where alb: "alloc (ast_binary AST_ARITHMETIC ret u rhs) p2 = (Some b, p3)"
    and k: "multiplicative_loop k E b p3 = Some (SUCCESS r, q)"
    and ne: "ast_type_of rhs \<noteq> AST_EMPTY"
    by (rule binary_step)
  from on_left_binary(2) [OF alb] multiplicative_loop_left [OF k] e ne show ?thesis by blast
qed

lemma relational_head:
  assumes "peek p = (t, p0)"
    and "map_of [(TOKEN_LT, AST_LT), (TOKEN_LE, AST_LE), (TOKEN_GT, AST_GT),
                 (TOKEN_GE, AST_GE), (TOKEN_IN, AST_IN)] t = Some ret"
    and "relational n E p = Some (SUCCESS r, q)"
  shows "\<exists>a e rhs. r = Ast_binary a AST_RELATIONAL ret e rhs
           \<and> ast_type_of e = AST_EMPTY \<and> ast_type_of rhs \<noteq> AST_EMPTY"
proof -
  have t: "t = TOKEN_LT \<or> t = TOKEN_LE \<or> t = TOKEN_GT \<or> t = TOKEN_GE \<or> t = TOKEN_IN"
    using assms(2) by (auto split: if_splits)
  have r: "ret \<noteq> AST_NOT_IN" using assms(2) by (auto split: if_splits)
  from assms(3) obtain lhs p1 where a: "additive n E p = Some (SUCCESS lhs, p1)"
    and k: "(case accept_any p1 [(TOKEN_LT, AST_LT), (TOKEN_LE, AST_LE), (TOKEN_GT, AST_GT),
                           (TOKEN_GE, AST_GE), (TOKEN_IN, AST_IN), (TOKEN_NOT, AST_NOT_IN)] of
         (None, p2) \<Rightarrow> Some (with_ast (Some lhs), p2)
       | (Some ret, p2) \<Rightarrow>
           (case (if ret = AST_NOT_IN then accept p2 TOKEN_IN else (True, p2)) of
              (False, p3) \<Rightarrow>
                Some (with_error (release lhs p3)
                        (''expected '' @ [CHR 0x60] @ ''in'' @ [QUOTE] @ '' after ''
                         @ [CHR 0x60] @ ''not'' @ [QUOTE]))
            | (True, p3) \<Rightarrow>
                sub (additive n E p3) (release lhs) (\<lambda>rhs p4.
                  if ast_type_of rhs = AST_EMPTY then
                    Some (with_expected (release rhs (release lhs p4))
                            ''relational'' ''expression'')
                  else
                    (case alloc (ast_binary AST_RELATIONAL ret lhs rhs) p4 of
                       (None, p5) \<Rightarrow> Some (NO_MEMORY, release rhs (release lhs p5))
                     | (Some b, p5) \<Rightarrow> Some (with_ast (Some b), p5))))) = Some (SUCCESS r, q)"
    unfolding relational_def by (rule sub_SUCCESS)
  from additive_at_operator [OF assms(1) _ a] t
  have e: "ast_type_of lhs = AST_EMPTY" and rp: "ready p1" "token p1 = t" by auto
  have "accept_any p1 [(TOKEN_LT, AST_LT), (TOKEN_LE, AST_LE), (TOKEN_GT, AST_GT),
                       (TOKEN_GE, AST_GE), (TOKEN_IN, AST_IN), (TOKEN_NOT, AST_NOT_IN)]
          = (Some ret, p1\<lparr>ready := False\<rparr>)"
    using rp t assms(2) by (auto simp: accept_any_ready)
  with k r obtain rhs p4 where
    "(if ast_type_of rhs = AST_EMPTY then
        Some (with_expected (release rhs (release lhs p4)) ''relational'' ''expression'')
      else (case alloc (ast_binary AST_RELATIONAL ret lhs rhs) p4 of
              (None, p5) \<Rightarrow> Some (NO_MEMORY, release rhs (release lhs p5))
            | (Some b, p5) \<Rightarrow> Some (with_ast (Some b), p5))) = Some (SUCCESS r, q)"
    by (auto elim: sub_SUCCESS)
  from binary_result(2,3) [OF this] e show ?thesis by blast
qed

lemma equality_head:
  assumes "peek p = (t, p0)"
    and "map_of [(TOKEN_EQ, AST_EQ), (TOKEN_NE, AST_NE)] t = Some ret"
    and "equality n E p = Some (SUCCESS r, q)"
  shows "\<exists>a e rhs. r = Ast_binary a AST_RELATIONAL ret e rhs
           \<and> ast_type_of e = AST_EMPTY \<and> ast_type_of rhs \<noteq> AST_EMPTY"
proof -
  have t: "t = TOKEN_EQ \<or> t = TOKEN_NE"
    using assms(2) by (auto split: if_splits)
  from assms(3) obtain lhs p1 where a: "relational n E p = Some (SUCCESS lhs, p1)"
    and k: "(case accept_any p1 [(TOKEN_EQ, AST_EQ), (TOKEN_NE, AST_NE)] of
         (None, p2) \<Rightarrow> Some (with_ast (Some lhs), p2)
       | (Some ret, p2) \<Rightarrow>
           sub (relational n E p2) (release lhs) (\<lambda>rhs p3.
             if ast_type_of rhs = AST_EMPTY then
               Some (with_expected (release rhs (release lhs p3)) ''equality'' ''expression'')
             else
               (case alloc (ast_binary AST_RELATIONAL ret lhs rhs) p3 of
                  (None, p4) \<Rightarrow> Some (NO_MEMORY, release rhs (release lhs p4))
                | (Some b, p4) \<Rightarrow> Some (with_ast (Some b), p4)))) = Some (SUCCESS r, q)"
    unfolding equality_def by (rule sub_SUCCESS)
  from a obtain l0 q0 where a0: "additive n E p = Some (SUCCESS l0, q0)"
    and k0: "(case accept_any q0 [(TOKEN_LT, AST_LT), (TOKEN_LE, AST_LE), (TOKEN_GT, AST_GT),
                           (TOKEN_GE, AST_GE), (TOKEN_IN, AST_IN), (TOKEN_NOT, AST_NOT_IN)] of
         (None, p2) \<Rightarrow> Some (with_ast (Some l0), p2)
       | (Some ret, p2) \<Rightarrow>
           (case (if ret = AST_NOT_IN then accept p2 TOKEN_IN else (True, p2)) of
              (False, p3) \<Rightarrow>
                Some (with_error (release l0 p3)
                        (''expected '' @ [CHR 0x60] @ ''in'' @ [QUOTE] @ '' after ''
                         @ [CHR 0x60] @ ''not'' @ [QUOTE]))
            | (True, p3) \<Rightarrow>
                sub (additive n E p3) (release l0) (\<lambda>rhs p4.
                  if ast_type_of rhs = AST_EMPTY then
                    Some (with_expected (release rhs (release l0 p4))
                            ''relational'' ''expression'')
                  else
                    (case alloc (ast_binary AST_RELATIONAL ret l0 rhs) p4 of
                       (None, p5) \<Rightarrow> Some (NO_MEMORY, release rhs (release l0 p5))
                     | (Some b, p5) \<Rightarrow> Some (with_ast (Some b), p5))))) = Some (SUCCESS lhs, p1)"
    unfolding relational_def by (rule sub_SUCCESS)
  from additive_at_operator [OF assms(1) _ a0] t
  have e0: "ast_type_of l0 = AST_EMPTY" and rp0: "ready q0" "token q0 = t" by auto
  have "accept_any q0 [(TOKEN_LT, AST_LT), (TOKEN_LE, AST_LE), (TOKEN_GT, AST_GT),
                       (TOKEN_GE, AST_GE), (TOKEN_IN, AST_IN), (TOKEN_NOT, AST_NOT_IN)]
          = (None, q0)"
    using rp0 t by (auto simp: accept_any_ready)
  with k0 have l: "lhs = l0" "p1 = q0" by (simp_all add: with_ast_def)
  with e0 rp0 have e: "ast_type_of lhs = AST_EMPTY" and rp: "ready p1" "token p1 = t"
    by simp_all
  have "accept_any p1 [(TOKEN_EQ, AST_EQ), (TOKEN_NE, AST_NE)] = (Some ret, p1\<lparr>ready := False\<rparr>)"
    using rp t assms(2) by (auto simp: accept_any_ready)
  with k obtain rhs p3 where
    "(if ast_type_of rhs = AST_EMPTY then
        Some (with_expected (release rhs (release lhs p3)) ''equality'' ''expression'')
      else (case alloc (ast_binary AST_RELATIONAL ret lhs rhs) p3 of
              (None, p4) \<Rightarrow> Some (NO_MEMORY, release rhs (release lhs p4))
            | (Some b, p4) \<Rightarrow> Some (with_ast (Some b), p4))) = Some (SUCCESS r, q)"
    by (auto elim: sub_SUCCESS)
  from binary_result(2,3) [OF this] e show ?thesis by blast
qed

text \<open>
  At statement position: a statement that begins with one of these operators and parses
  holds, down the left operands of its tree, the binary node of that operator with an Empty
  left operand.
\<close>

lemma statement_multiplicative:
  assumes "peek p = (t, p0)"
    and "map_of [(TOKEN_STAR, AST_MUL), (TOKEN_PERCENT, AST_MOD), (TOKEN_SLASH, AST_DIV)] t = Some ret"
    and "statement n S (expression m) p = Some (SUCCESS r, q)"
  shows "\<exists>a e rhs. on_left (Ast_binary a AST_ARITHMETIC ret e rhs) r
           \<and> ast_type_of e = AST_EMPTY \<and> ast_type_of rhs \<noteq> AST_EMPTY"
proof -
  have t: "t = TOKEN_STAR \<or> t = TOKEN_PERCENT \<or> t = TOKEN_SLASH"
    using assms(2) by (auto split: if_splits)
  with statement_expression [OF assms(1), of n S "expression m"] assms(3)
  have "expression m p0 = Some (SUCCESS r, q)" by auto
  from expression_left [OF this] obtain k r0 q0 where
    m: "multiplicative k (expression k) p0 = Some (SUCCESS r0, q0)" and l: "on_left r0 r"
    by blast
  from multiplicative_head [OF peek_ready(3) [OF assms(1)] assms(2) m] l on_left_trans
  show ?thesis by blast
qed

lemma statement_relational:
  assumes "peek p = (t, p0)"
    and "map_of [(TOKEN_LT, AST_LT), (TOKEN_LE, AST_LE), (TOKEN_GT, AST_GT),
                 (TOKEN_GE, AST_GE), (TOKEN_IN, AST_IN)] t = Some ret"
    and "statement n S (expression m) p = Some (SUCCESS r, q)"
  shows "\<exists>a e rhs. on_left (Ast_binary a AST_RELATIONAL ret e rhs) r
           \<and> ast_type_of e = AST_EMPTY \<and> ast_type_of rhs \<noteq> AST_EMPTY"
proof -
  have t: "t = TOKEN_LT \<or> t = TOKEN_LE \<or> t = TOKEN_GT \<or> t = TOKEN_GE \<or> t = TOKEN_IN"
    using assms(2) by (auto split: if_splits)
  with statement_expression [OF assms(1), of n S "expression m"] assms(3)
  have "expression m p0 = Some (SUCCESS r, q)" by auto
  from expression_left [OF this] obtain k r0 q0 where
    m: "relational k (expression k) p0 = Some (SUCCESS r0, q0)" and l: "on_left r0 r"
    by blast
  from relational_head [OF peek_ready(3) [OF assms(1)] assms(2) m] l
  show ?thesis by blast
qed

lemma statement_equality:
  assumes "peek p = (t, p0)"
    and "map_of [(TOKEN_EQ, AST_EQ), (TOKEN_NE, AST_NE)] t = Some ret"
    and "statement n S (expression m) p = Some (SUCCESS r, q)"
  shows "\<exists>a e rhs. on_left (Ast_binary a AST_RELATIONAL ret e rhs) r
           \<and> ast_type_of e = AST_EMPTY \<and> ast_type_of rhs \<noteq> AST_EMPTY"
proof -
  have t: "t = TOKEN_EQ \<or> t = TOKEN_NE"
    using assms(2) by (auto split: if_splits)
  with statement_expression [OF assms(1), of n S "expression m"] assms(3)
  have "expression m p0 = Some (SUCCESS r, q)" by auto
  from expression_left [OF this] obtain k r0 q0 where
    m: "equality k (expression k) p0 = Some (SUCCESS r0, q0)" and l: "on_left r0 r"
    by blast
  from equality_head [OF peek_ready(3) [OF assms(1)] assms(2) m] l
  show ?thesis by blast
qed

text \<open>
  The levels above an operand pass it on unchanged when the next token is none of their
  operators.
\<close>

lemma accept_any_peek_None:
  assumes "peek p = (t, p1)" and "t \<notin> fst ` set pairs"
  shows "accept_any p pairs = (None, p1)"
proof -
  from peek_ready [OF assms(1)] have "token p1 = t" by simp
  moreover from assms(2) have "find (\<lambda>(tok, r). tok = t) pairs = None"
    by (auto simp: find_None_iff image_iff)
  ultimately show ?thesis using assms(1) by (simp add: accept_any_def)
qed

lemma additive_tail:
  assumes "multiplicative (Suc n) E p0 = Some (SUCCESS b, p)"
    and "ready p" and "token p \<notin> set [TOKEN_PLUS, TOKEN_MINUS]"
  shows "additive (Suc n) E p0 = Some (SUCCESS b, p)"
proof -
  have "accept_any p [(TOKEN_PLUS, AST_ADD), (TOKEN_MINUS, AST_SUB)] = (None, p)"
    using assms(2,3) by (auto simp: accept_any_ready)
  with assms(1) show ?thesis
    by (simp add: additive_def sub_simps additive_loop.simps with_ast_def)
qed

lemma relational_tail:
  assumes "additive n E p0 = Some (SUCCESS b, p)"
    and "ready p"
    and "token p \<notin> set [TOKEN_LT, TOKEN_LE, TOKEN_GT, TOKEN_GE, TOKEN_IN, TOKEN_NOT]"
  shows "relational n E p0 = Some (SUCCESS b, p)"
proof -
  have "accept_any p [(TOKEN_LT, AST_LT), (TOKEN_LE, AST_LE), (TOKEN_GT, AST_GT),
                      (TOKEN_GE, AST_GE), (TOKEN_IN, AST_IN), (TOKEN_NOT, AST_NOT_IN)]
          = (None, p)"
    using assms(2,3) by (auto simp: accept_any_ready)
  with assms(1) show ?thesis
    by (simp add: relational_def sub_simps with_ast_def)
qed

lemma equality_tail:
  assumes "relational n E p0 = Some (SUCCESS b, p)"
    and "ready p" and "token p \<notin> set [TOKEN_EQ, TOKEN_NE]"
  shows "equality n E p0 = Some (SUCCESS b, p)"
proof -
  have "accept_any p [(TOKEN_EQ, AST_EQ), (TOKEN_NE, AST_NE)] = (None, p)"
    using assms(2,3) by (auto simp: accept_any_ready)
  with assms(1) show ?thesis
    by (simp add: equality_def sub_simps with_ast_def)
qed

lemma assignment_tail:
  assumes "equality (Suc n) E p0 = Some (SUCCESS b, p)"
    and "ready p"
    and "token p \<notin> set [TOKEN_AND, TOKEN_OR, TOKEN_TERNARY, TOKEN_ASSIGN, TOKEN_ADD_ASSIGN,
                          TOKEN_SUB_ASSIGN, TOKEN_MUL_ASSIGN, TOKEN_DIV_ASSIGN, TOKEN_MOD_ASSIGN]"
  shows "assignment (Suc n) E p0 = Some (SUCCESS b, p)"
proof -
  have a: "accept p TOKEN_AND = (False, p)" "accept p TOKEN_OR = (False, p)"
    "accept p TOKEN_TERNARY = (False, p)"
    using assms(2,3) by (auto simp: accept_ready)
  have "logical_and (Suc n) E p0 = Some (SUCCESS b, p)"
    using assms(1) a(1) by (simp add: logical_and_def sub_simps logical_and_loop.simps with_ast_def)
  then have "logical_or (Suc n) E p0 = Some (SUCCESS b, p)"
    using a(2) by (simp add: logical_or_def sub_simps logical_or_loop.simps with_ast_def)
  then have c: "conditional (Suc n) E p0 = Some (SUCCESS b, p)"
    using a(3) by (simp add: conditional_def sub_simps with_ast_def)
  have "accept_any p [(TOKEN_ASSIGN, AST_ASSIGN), (TOKEN_ADD_ASSIGN, AST_ADD_ASSIGN),
                      (TOKEN_SUB_ASSIGN, AST_SUB_ASSIGN), (TOKEN_MUL_ASSIGN, AST_MUL_ASSIGN),
                      (TOKEN_DIV_ASSIGN, AST_DIV_ASSIGN), (TOKEN_MOD_ASSIGN, AST_MOD_ASSIGN)]
          = (None, p)"
    using assms(2,3) by (auto simp: accept_any_ready)
  with c show ?thesis
    by (simp add: assignment_def sub_simps with_ast_def)
qed

text \<open>
  At statement position: the operator, a right operand that parses, and then a token that
  continues no expression give the binary node as the statement.
\<close>

lemma statement_multiplicative_parses:
  assumes "peek p = (t, p0)"
    and "map_of [(TOKEN_STAR, AST_MUL), (TOKEN_PERCENT, AST_MOD), (TOKEN_SLASH, AST_DIV)] t = Some ret"
    and "alloc ast_empty p0 = (Some e, p1)"
    and "unary (Suc k) (expression (Suc (Suc k))) (p1\<lparr>ready := False\<rparr>) = Some (SUCCESS rhs, p2)"
    and "ast_type_of rhs \<noteq> AST_EMPTY"
    and "alloc (ast_binary AST_ARITHMETIC ret e rhs) p2 = (Some b, p3)"
    and "peek p3 = (t2, p4)"
    and "t2 \<notin> set [TOKEN_STAR, TOKEN_PERCENT, TOKEN_SLASH, TOKEN_PLUS, TOKEN_MINUS,
                     TOKEN_LT, TOKEN_LE, TOKEN_GT, TOKEN_GE, TOKEN_IN, TOKEN_NOT,
                     TOKEN_EQ, TOKEN_NE, TOKEN_AND, TOKEN_OR, TOKEN_TERNARY,
                     TOKEN_ASSIGN, TOKEN_ADD_ASSIGN, TOKEN_SUB_ASSIGN, TOKEN_MUL_ASSIGN,
                     TOKEN_DIV_ASSIGN, TOKEN_MOD_ASSIGN]"
  shows "statement n S (expression (Suc (Suc (Suc k)))) p = Some (SUCCESS b, p4)"
proof -
  have t: "t = TOKEN_STAR \<or> t = TOKEN_PERCENT \<or> t = TOKEN_SLASH"
    using assms(2) by (auto split: if_splits)
  note r = peek_ready [OF assms(7)]
  have "accept_any p3 [(TOKEN_STAR, AST_MUL), (TOKEN_PERCENT, AST_MOD), (TOKEN_SLASH, AST_DIV)]
          = (None, p4)"
    using assms(8) by (intro accept_any_peek_None [OF assms(7)]) auto
  then have "multiplicative_loop (Suc k) (expression (Suc (Suc k))) b p3 = Some (SUCCESS b, p4)"
    by (simp add: multiplicative_loop.simps with_ast_def)
  with multiplicative_leading [OF peek_ready(3) [OF assms(1)] assms(2,3,4,5,6)]
  have "multiplicative (Suc (Suc k)) (expression (Suc (Suc k))) p0 = Some (SUCCESS b, p4)"
    by simp
  from additive_tail [OF this] r assms(8)
  have "additive (Suc (Suc k)) (expression (Suc (Suc k))) p0 = Some (SUCCESS b, p4)" by simp
  from relational_tail [OF this] r assms(8)
  have "relational (Suc (Suc k)) (expression (Suc (Suc k))) p0 = Some (SUCCESS b, p4)" by simp
  from equality_tail [OF this] r assms(8)
  have "equality (Suc (Suc k)) (expression (Suc (Suc k))) p0 = Some (SUCCESS b, p4)" by simp
  from assignment_tail [OF this] r assms(8)
  have "assignment (Suc (Suc k)) (expression (Suc (Suc k))) p0 = Some (SUCCESS b, p4)" by simp
  with statement_expression [OF assms(1), of n S "expression (Suc (Suc (Suc k)))"] t
  show ?thesis by (auto simp: expression.simps)
qed

lemma statement_relational_parses:
  assumes "peek p = (t, p0)"
    and "map_of [(TOKEN_LT, AST_LT), (TOKEN_LE, AST_LE), (TOKEN_GT, AST_GT),
                 (TOKEN_GE, AST_GE), (TOKEN_IN, AST_IN)] t = Some ret"
    and "alloc ast_empty p0 = (Some e, p1)"
    and "additive (Suc k) (expression (Suc k)) (p1\<lparr>ready := False\<rparr>) = Some (SUCCESS rhs, p2)"
    and "ast_type_of rhs \<noteq> AST_EMPTY"
    and "alloc (ast_binary AST_RELATIONAL ret e rhs) p2 = (Some b, p3)"
    and "peek p3 = (t2, p4)"
    and "t2 \<notin> set [TOKEN_EQ, TOKEN_NE, TOKEN_AND, TOKEN_OR, TOKEN_TERNARY,
                     TOKEN_ASSIGN, TOKEN_ADD_ASSIGN, TOKEN_SUB_ASSIGN, TOKEN_MUL_ASSIGN,
                     TOKEN_DIV_ASSIGN, TOKEN_MOD_ASSIGN]"
  shows "statement n S (expression (Suc (Suc k))) p = Some (SUCCESS b, p4)"
proof -
  have t: "t = TOKEN_LT \<or> t = TOKEN_LE \<or> t = TOKEN_GT \<or> t = TOKEN_GE \<or> t = TOKEN_IN"
    using assms(2) by (auto split: if_splits)
  note r = peek_ready [OF assms(7)]
  from relational_leading [OF peek_ready(3) [OF assms(1)] assms(2,3,4,5,6)]
  have rel: "relational (Suc k) (expression (Suc k)) p0 = Some (SUCCESS b, p3)" by simp
  have "accept_any p3 [(TOKEN_EQ, AST_EQ), (TOKEN_NE, AST_NE)] = (None, p4)"
    using assms(8) by (intro accept_any_peek_None [OF assms(7)]) auto
  with rel have "equality (Suc k) (expression (Suc k)) p0 = Some (SUCCESS b, p4)"
    by (simp add: equality_def sub_simps with_ast_def)
  from assignment_tail [OF this] r assms(8)
  have "assignment (Suc k) (expression (Suc k)) p0 = Some (SUCCESS b, p4)" by simp
  with statement_expression [OF assms(1), of n S "expression (Suc (Suc k))"] t
  show ?thesis by (auto simp: expression.simps)
qed

lemma statement_equality_parses:
  assumes "peek p = (t, p0)"
    and "map_of [(TOKEN_EQ, AST_EQ), (TOKEN_NE, AST_NE)] t = Some ret"
    and "alloc ast_empty p0 = (Some e, p1)"
    and "relational (Suc k) (expression (Suc k)) (p1\<lparr>ready := False\<rparr>) = Some (SUCCESS rhs, p2)"
    and "ast_type_of rhs \<noteq> AST_EMPTY"
    and "alloc (ast_binary AST_RELATIONAL ret e rhs) p2 = (Some b, p3)"
    and "peek p3 = (t2, p4)"
    and "t2 \<notin> set [TOKEN_AND, TOKEN_OR, TOKEN_TERNARY,
                     TOKEN_ASSIGN, TOKEN_ADD_ASSIGN, TOKEN_SUB_ASSIGN, TOKEN_MUL_ASSIGN,
                     TOKEN_DIV_ASSIGN, TOKEN_MOD_ASSIGN]"
  shows "statement n S (expression (Suc (Suc k))) p = Some (SUCCESS b, p4)"
proof -
  have t: "t = TOKEN_EQ \<or> t = TOKEN_NE"
    using assms(2) by (auto split: if_splits)
  note r = peek_ready [OF assms(7)]
  from equality_leading [OF peek_ready(3) [OF assms(1)] assms(2,3,4,5,6)]
  have eq: "equality (Suc k) (expression (Suc k)) p0 = Some (SUCCESS b, p3)" by simp
  have a: "accept p3 TOKEN_AND = (False, p4)"
    using accept_any_peek_None [OF assms(7), of "[(TOKEN_AND, ())]"] assms(8)
    by (simp add: accept_def)
  have a2: "accept p4 TOKEN_OR = (False, p4)" "accept p4 TOKEN_TERNARY = (False, p4)"
    using r assms(8) by (auto simp: accept_ready)
  have "logical_and (Suc k) (expression (Suc k)) p0 = Some (SUCCESS b, p4)"
    using eq a by (simp add: logical_and_def sub_simps logical_and_loop.simps with_ast_def)
  then have "logical_or (Suc k) (expression (Suc k)) p0 = Some (SUCCESS b, p4)"
    using a2(1) by (simp add: logical_or_def sub_simps logical_or_loop.simps with_ast_def)
  then have c: "conditional (Suc k) (expression (Suc k)) p0 = Some (SUCCESS b, p4)"
    using a2(2) by (simp add: conditional_def sub_simps with_ast_def)
  have "accept_any p4 [(TOKEN_ASSIGN, AST_ASSIGN), (TOKEN_ADD_ASSIGN, AST_ADD_ASSIGN),
                      (TOKEN_SUB_ASSIGN, AST_SUB_ASSIGN), (TOKEN_MUL_ASSIGN, AST_MUL_ASSIGN),
                      (TOKEN_DIV_ASSIGN, AST_DIV_ASSIGN), (TOKEN_MOD_ASSIGN, AST_MOD_ASSIGN)]
          = (None, p4)"
    using r assms(8) by (auto simp: accept_any_ready)
  with c have "assignment (Suc k) (expression (Suc k)) p0 = Some (SUCCESS b, p4)"
    by (simp add: assignment_def sub_simps with_ast_def)
  with statement_expression [OF assms(1), of n S "expression (Suc (Suc k))"] t
  show ?thesis by (auto simp: expression.simps)
qed


section \<open>The claims\<close>

text \<open>
  C1. A run of letters, digits and underscores is a keyword token exactly when the longest
  keyword at its start is followed by the end of the input, white space or punctuation,
  and otherwise an identifier holding the whole run; so the run \<open>aor\<close> is one identifier.
  The code does otherwise on \<open>aor\<close>: the first loop of \<open>symbol\<close> consumes \<open>a\<close> for
  \<open>and\<close>, resets \<open>j\<close> without going back in the input, later matches \<open>or\<close> against the
  rest and returns the keyword token of \<open>or\<close>, with the lexeme \<open>aor\<close>.
\<close>

theorem symbol_aor:
  "(case lex (lexer_init (heap_init []) (string_from_buf ''aor'')) of
      (t, l) \<Rightarrow> (t, lexeme l, input_pos l, fault (mem l))) = (TOKEN_OR, ''aor'', 3, False)"
  by (simp add: eval cong: eval_cong)

text \<open>
  C2. \<open>parse\<close> returns a definite outcome on every input, also on one that ends inside a
  triple-quoted string. On the source of eight bytes that is three quotes, \<open>abc\<close> and two
  quotes the code does not: \<open>multiline_string\<close> moves the cursor to 9, past the
  terminator at 8, and goes on reading outside the input.
\<close>

theorem parse_unterminated_multiline:
  "(case lex (lexer_init (heap_init []) (string_from_buf ([QUOTE, QUOTE, QUOTE] @ ''abc'' @ [QUOTE, QUOTE]))) of
      (t, l) \<Rightarrow> (input_len l, input_pos l, fault (mem l))) = (8, 9, True)
   \<and> (case parse (heap_init []) (string_from_buf ([QUOTE, QUOTE, QUOTE] @ ''abc'' @ [QUOTE, QUOTE])) of
        Some (r, h) \<Rightarrow> fault h
      | None \<Rightarrow> False)"
  by (simp add: eval cong: eval_cong)

text \<open>
  C3. When \<open>parse\<close> returns a failure or the out-of-memory outcome, every node allocated
  during the call has been released exactly once. The code leaves a node behind on the
  source \<open>a.b\<close> when the eighth allocation of the call (the member node) fails: \<open>postfix\<close>
  releases the object \<open>a\<close> and returns without releasing the field \<open>b\<close>, so the node at
  address 5 and its text at address 6 are still allocated when \<open>parse\<close> returns.
\<close>

theorem parse_member_leak:
  "parse (heap_init [True, True, True, True, True, True, True, False]) (string_from_buf ''a.b'') =
     Some (Error (string_from_buf ''not enough memory''),
           \<lparr>outcomes = [], top = 7, live = [(6, Text), (5, Node)], wrong = [], fault = False\<rparr>)"
  by (simp add: eval cong: eval_cong)

text \<open>
  C4, as stated: postfix extensions are attached only when the primary expression is a
  plain identifier, and a parenthesized expression is returned with no postfix chain.
  The code tests the type of the node that \<open>primary\<close> returns, and for a parenthesized
  expression that is the node of the inner expression: the source \<open>(a)[0]\<close> parses to an
  Index node over \<open>a\<close>.
\<close>

theorem parenthesised_identifier_index:
  "map_option fst (parse (heap_init []) (string_from_buf ''(a)[0]'')) =
     Some (Parsed (Ast_seq 6 [Ast_index 5 (Some (Ast_id 2 (Owned 3 ''a''))) (Ast_number 4 0)]))"
  by (simp add: eval cong: eval_cong)

text \<open>
  C4, as the code has it: \<open>postfix\<close> attaches extensions exactly when the node returned
  by \<open>primary\<close> is an Identifier node.
  \<^item> A primary whose node has another type is returned unchanged, and a primary whose node
    is an Identifier enters the loop of extensions.
  \<^item> A primary that begins with a token other than an identifier or an opening parenthesis
    (a literal, an array, a dictionary) never yields an Identifier node, so it is returned
    unchanged; a primary that is an identifier token always enters the loop.
  \<^item> A parenthesized expression yields the node of the expression inside it, and gets
    the extensions when that is an Identifier.

  So \<open>[1,2,3][0]\<close> is not an Index node over an Array literal (it is two statements, the
  array and a second array \<open>[0]\<close>), \<open>(1)[0]\<close> likewise, and \<open>a[0]\<close> is an Index node with
  ref \<open>a\<close> and index \<open>0\<close>.
\<close>

theorem postfix_by_node_type:
  "(\<forall>n E p a p1.
      primary n E p = Some (SUCCESS a, p1) \<and> ast_type_of a \<noteq> AST_ID \<longrightarrow>
      postfix n E p = Some (SUCCESS a, p1))
   \<and> (\<forall>n E p a p1.
      primary n E p = Some (SUCCESS a, p1) \<and> ast_type_of a = AST_ID \<longrightarrow>
      postfix n E p = postfix_loop n E a p1)
   \<and> (\<forall>n E p t p0 a p1.
      peek p = (t, p0) \<and> t \<noteq> TOKEN_L_PAREN \<and> t \<noteq> TOKEN_IDENTIFIER
      \<and> primary n E p = Some (SUCCESS a, p1) \<longrightarrow>
      ast_type_of a \<noteq> AST_ID \<and> postfix n E p = Some (SUCCESS a, p1))
   \<and> (\<forall>n E p p0 a p1.
      peek p = (TOKEN_IDENTIFIER, p0) \<and> primary n E p = Some (SUCCESS a, p1) \<longrightarrow>
      ast_type_of a = AST_ID \<and> postfix n E p = postfix_loop n E a p1)
   \<and> map_option fst (parse (heap_init []) (string_from_buf ''[1,2,3][0]'')) =
       Some (Parsed (Ast_seq 5 [Ast_array 1 3 [Ast_number 2 1, Ast_number 3 2, Ast_number 4 3],
                                Ast_array 6 1 [Ast_number 7 0]]))
   \<and> map_option fst (parse (heap_init []) (string_from_buf ''a[0]'')) =
       Some (Parsed (Ast_seq 6 [Ast_index 5 (Some (Ast_id 2 (Owned 3 ''a''))) (Ast_number 4 0)]))
   \<and> map_option fst (parse (heap_init []) (string_from_buf ''(1)[0]'')) =
       Some (Parsed (Ast_seq 2 [Ast_number 1 1, Ast_array 3 1 [Ast_number 4 0]]))"
  apply (intro conjI)
        apply (simp add: postfix_def)
       apply (simp add: postfix_def)
      apply (intro allI impI conjI; elim conjE)
       apply (rule primary_literal(1); assumption)
      apply (rule primary_literal(2); assumption)
     apply (intro allI impI conjI; elim conjE)
      apply (rule primary_identifier(1); assumption)
     apply (rule primary_identifier(2); assumption)
    apply (simp_all add: eval cong: eval_cong)
  done

text \<open>The first part at the literal \<open>7\<close> followed by \<open>.x\<close>: the number comes back alone.\<close>

theorem postfix_by_node_type_witness:
  "map_option fst (postfix (Suc (Suc 0)) (expression (Suc (Suc 0)))
      \<lparr>lexer = lexer_init (heap_init []) (string_from_buf ''7 .x''), token = TOKEN_INVALID, ready = False\<rparr>) =
     Some (SUCCESS (Ast_number 1 7))"
proof -
  let ?N = "Suc (Suc 0)"
  let ?P = "\<lparr>lexer = lexer_init (heap_init []) (string_from_buf ''7 .x''), token = TOKEN_INVALID, ready = False\<rparr>"
  let ?a = "Ast_number 1 7"
  let ?Pa = "snd (the (primary ?N (expression ?N) ?P))"
  have 1: "primary ?N (expression ?N) ?P = Some (SUCCESS ?a, ?Pa)"
    by (simp add: eval cong: eval_cong)
  have 2: "ast_type_of ?a \<noteq> AST_ID"
    by simp
  note rule = postfix_by_node_type [THEN conjunct1, rule_format]
  from rule [of ?N "expression ?N" ?P ?a ?Pa, OF conjI [OF 1 2]]
  have "postfix ?N (expression ?N) ?P = Some (SUCCESS ?a, ?Pa)"
    by this
  then show ?thesis by simp
qed

text \<open>
  C5. In the argument list of an application, positional arguments are accepted until
  the first pair of an identifier and a colon, and every argument after that must be in
  keyword form. In the loop of \<open>application\<close>: an argument without a colon is appended
  as positional while no keyword has been seen, and fails with
  \<open>application: expected keyword\<close> once one has; an identifier with a colon and a value
  is appended as a keyword argument, and the loop goes on with the flag set. The source
  \<open>f(a, k: v)\<close> parses to an Application node with the one positional argument \<open>a\<close>
  and the one keyword argument \<open>k\<close> bound to \<open>v\<close>, and \<open>f(k: v, a)\<close> fails with the
  message \<open>application: expected keyword\<close>.
\<close>

theorem application_keywords_last:
  "(\<forall>n E app p arg p1 p2.
      E p = Some (SUCCESS arg, p1) \<and> ast_type_of arg \<noteq> AST_EMPTY
      \<and> accept p1 TOKEN_COLON = (False, p2) \<longrightarrow>
      application_loop (Suc n) E app False p =
        comma_then TOKEN_R_PAREN p2
          (application_loop n E (app_append_arg app arg) False)
          (application_end (app_append_arg app arg))
      \<and> application_loop (Suc n) E app True p =
          Some (with_error (release arg (release app p2)) ''application: expected keyword''))
   \<and> (\<forall>n E app kws p arg p1 p2 v p3 kw p4.
      E p = Some (SUCCESS arg, p1) \<and> ast_type_of arg = AST_ID
      \<and> accept p1 TOKEN_COLON = (True, p2)
      \<and> E p2 = Some (SUCCESS v, p3) \<and> ast_type_of v \<noteq> AST_EMPTY
      \<and> alloc (new_node (\<lambda>a. Ast_kw_arg a arg v)) p3 = (Some kw, p4) \<longrightarrow>
      application_loop (Suc n) E app kws p =
        comma_then TOKEN_R_PAREN p4
          (application_loop n E (app_append_kw app kw) True)
          (application_end (app_append_kw app kw)))
   \<and> map_option fst (parse (heap_init []) (string_from_buf ''f(a, k: v)'')) =
       Some (Parsed (Ast_seq 15
         [Ast_app 4 (Some (Ast_id 2 (Owned 3 ''f''))) [Ast_id 6 (Owned 7 ''a'')]
            [Ast_kw_arg 14 (Ast_id 9 (Owned 10 ''k'')) (Ast_id 12 (Owned 13 ''v''))]]))
   \<and> map_option fst (parse (heap_init []) (string_from_buf ''f(k: v, a)'')) =
       Some (Error (Owned 15 ''application: expected keyword''))"
  apply (intro conjI)
     apply (simp add: application_loop.simps sub_simps with_expected_def)
    apply (simp add: application_loop.simps sub_simps)
   apply (simp_all add: eval cong: eval_cong)
  done

text \<open>The first part in the argument list of \<open>(a)\<close>, after the opening parenthesis.\<close>

theorem application_keywords_last_witness:
  "map_option fst
     (application_loop (Suc 0) (expression (Suc (Suc (Suc 0)))) (Ast_app 1 None [] []) False
        (snd (accept (snd (alloc ast_app (snd (accept
           \<lparr>lexer = lexer_init (heap_init []) (string_from_buf ''(a)''), token = TOKEN_INVALID, ready = False\<rparr>
           TOKEN_L_PAREN)))) TOKEN_R_PAREN))) =
     Some (SUCCESS (Ast_app 1 None [Ast_id 3 (Owned 4 ''a'')] []))"
proof -
  let ?E = "expression (Suc (Suc (Suc 0)))"
  let ?app = "Ast_app 1 None [] []"
  let ?P = "snd (accept (snd (alloc ast_app (snd (accept
           \<lparr>lexer = lexer_init (heap_init []) (string_from_buf ''(a)''), token = TOKEN_INVALID, ready = False\<rparr>
           TOKEN_L_PAREN)))) TOKEN_R_PAREN)"
  let ?arg = "Ast_id 3 (Owned 4 ''a'')"
  let ?Pa = "snd (the (?E ?P))"
  let ?Pb = "snd (accept ?Pa TOKEN_COLON)"
  have 1: "?E ?P = Some (SUCCESS ?arg, ?Pa)"
    by (simp add: eval cong: eval_cong)
  have 2: "ast_type_of ?arg \<noteq> AST_EMPTY"
    by simp
  have 3: "accept ?Pa TOKEN_COLON = (False, ?Pb)"
    by (simp add: eval cong: eval_cong)
  note rule = application_keywords_last [THEN conjunct1, rule_format]
  from rule [of ?E ?P ?arg ?Pa ?Pb 0 ?app, OF conjI [OF 1 conjI [OF 2 3]]]
  have "application_loop (Suc 0) ?E ?app False ?P =
          comma_then TOKEN_R_PAREN ?Pb
            (application_loop 0 ?E (app_append_arg ?app ?arg) False)
            (application_end (app_append_arg ?app ?arg))"
    by (rule conjunct1)
  moreover have "map_option fst (comma_then TOKEN_R_PAREN ?Pb
            (application_loop 0 ?E (app_append_arg ?app ?arg) False)
            (application_end (app_append_arg ?app ?arg))) =
          Some (SUCCESS (Ast_app 1 None [?arg] []))"
    by (simp add: eval cong: eval_cong)
  ultimately show ?thesis by simp
qed

text \<open>
  C6. A base prefix \<open>0b\<close>, \<open>0o\<close> or \<open>0x\<close> that no digit of its base follows gives the
  error token; a number that a character other than the end of the input, white space or
  punctuation follows, as in \<open>0_\<close>, gives the error token; the lexeme of a number with a
  base prefix leaves the marker out, and a decimal number keeps all its digits.

  The source is a text with a length (\<open>struct string\<close>), and the end of the input is where
  the cursor equals \<open>input_len\<close>. \<open>number\<close> reads the marker, the first digit and the
  run of digits with \<open>peek\<close> and never compares the cursor with \<open>input_len\<close> before it
  reads. On the source \<open>0x\<close>, the first two bytes of the buffer \<open>0x1 \<close>
  (\<open>string_from_buf_n\<close> with the length 2), the prefix is followed by the end of the
  input, and \<open>lex\<close> returns the hexadecimal number token with the lexeme \<open>1\<close>, the cursor
  beyond \<open>input_len\<close>. On the source \<open>1\<close>, the first byte of the buffer \<open>12_\<close>, the number
  is followed by the end of the input, and \<open>lex\<close> returns the error token; in the buffer
  \<open>12 \<close> it returns the decimal number token with the lexeme \<open>12\<close>. On the source \<open>0x\<close>
  in a buffer of two bytes the read after the end of the source is an invalid access.

  On a source that a NUL byte follows, as \<open>string_from_buf\<close> builds it, the scan stops at
  that byte: \<open>0b\<close>, \<open>0o\<close>, \<open>0x\<close>, \<open>0b2\<close> and \<open>0_\<close> give the error token, \<open>0x1A\<close> the
  hexadecimal number token with the lexeme \<open>1A\<close>, and \<open>0123456789\<close> the decimal number
  token with all its digits.
\<close>

theorem number_reads_past_length:
  "(case lex (lexer_init (heap_init []) (string_from_buf_n (''0x1 '' @ [NUL]) 2)) of
      (t, l) \<Rightarrow> (t, lexeme l, input_len l, input_pos l, fault (mem l))) =
     (TOKEN_HEX_NUMBER, ''1'', 2, 3, False)
   \<and> (case lex (lexer_init (heap_init []) (string_from_buf_n (''12_'' @ [NUL]) 1)) of
      (t, l) \<Rightarrow> (t, input_len l, input_pos l, fault (mem l))) =
     (TOKEN_ERROR, 1, 2, False)
   \<and> (case lex (lexer_init (heap_init []) (string_from_buf_n (''12 '' @ [NUL]) 1)) of
      (t, l) \<Rightarrow> (t, lexeme l, input_len l, input_pos l, fault (mem l))) =
     (TOKEN_DEC_NUMBER, ''12'', 1, 2, False)
   \<and> fault (mem (snd (lex (lexer_init (heap_init []) (string_from_buf_n ''0x'' 2)))))
   \<and> fst (lex (lexer_init (heap_init []) (string_from_buf ''0b''))) = TOKEN_ERROR
   \<and> fst (lex (lexer_init (heap_init []) (string_from_buf ''0o''))) = TOKEN_ERROR
   \<and> fst (lex (lexer_init (heap_init []) (string_from_buf ''0x''))) = TOKEN_ERROR
   \<and> fst (lex (lexer_init (heap_init []) (string_from_buf ''0b2''))) = TOKEN_ERROR
   \<and> fst (lex (lexer_init (heap_init []) (string_from_buf ''0_''))) = TOKEN_ERROR
   \<and> (case lex (lexer_init (heap_init []) (string_from_buf ''1'')) of (t, l) \<Rightarrow> (t, lexeme l)) =
       (TOKEN_DEC_NUMBER, ''1'')
   \<and> (case lex (lexer_init (heap_init []) (string_from_buf ''0x1A'')) of (t, l) \<Rightarrow> (t, lexeme l)) =
       (TOKEN_HEX_NUMBER, ''1A'')
   \<and> (case lex (lexer_init (heap_init []) (string_from_buf ''0123456789'')) of
         (t, l) \<Rightarrow> (t, lexeme l)) =
       (TOKEN_DEC_NUMBER, ''0123456789'')"
  by (simp add: eval cong: eval_cong)

text \<open>
  C7. If the first statement of a sequence parses to the Empty node, the result of the
  sequence is that Empty node. Otherwise the statements are collected until one parses
  to the Empty node: the result is a Sequence node with the first statement and the
  statements of \<open>spec_statements\<close> in order, and the trailing Empty node is released.
  The source \<open>a b c\<close> parses to a Sequence node with exactly three statements, and the
  empty source parses to the Empty node, not to a Sequence node without statements.
\<close>

theorem sequence_until_empty:
  "(\<forall>n ST p e p1.
      ST p = Some (SUCCESS e, p1) \<and> ast_type_of e = AST_EMPTY \<longrightarrow>
      sequence_of n ST p = Some (SUCCESS e, p1))
   \<and> (\<forall>n ST p first p1 seq p2 rest e pE.
      ST p = Some (SUCCESS first, p1) \<and> ast_type_of first \<noteq> AST_EMPTY
      \<and> alloc ast_seq p1 = (Some seq, p2)
      \<and> spec_statements n ST p2 = Some (rest, e, pE) \<longrightarrow>
      (\<exists>a. seq = Ast_seq a []
          \<and> sequence_of n ST p = Some (SUCCESS (Ast_seq a (first # rest)), release e pE)))
   \<and> map_option fst (parse (heap_init []) (string_from_buf ''a b c'')) =
       Some (Parsed (Ast_seq 4 [Ast_id 2 (Owned 3 ''a''), Ast_id 6 (Owned 7 ''b''),
                                Ast_id 9 (Owned 10 ''c'')]))
   \<and> map_option fst (parse (heap_init []) (string_from_buf '''')) = Some (Parsed (Ast 1 AST_EMPTY AST_NONE))"
proof (intro conjI)
  show "\<forall>n ST p e p1.
      ST p = Some (SUCCESS e, p1) \<and> ast_type_of e = AST_EMPTY \<longrightarrow>
      sequence_of n ST p = Some (SUCCESS e, p1)"
    by (simp add: sequence_of_def sub_simps with_ast_def)
  show "\<forall>n ST p first p1 seq p2 rest e pE.
      ST p = Some (SUCCESS first, p1) \<and> ast_type_of first \<noteq> AST_EMPTY
      \<and> alloc ast_seq p1 = (Some seq, p2)
      \<and> spec_statements n ST p2 = Some (rest, e, pE) \<longrightarrow>
      (\<exists>a. seq = Ast_seq a []
          \<and> sequence_of n ST p = Some (SUCCESS (Ast_seq a (first # rest)), release e pE))"
  proof (intro allI impI, elim conjE)
    fix n ST p first p1 seq p2 rest e pE
    assume st: "ST p = Some (SUCCESS first, p1)" and ne: "ast_type_of first \<noteq> AST_EMPTY"
      and al: "alloc ast_seq p1 = (Some seq, p2)"
      and sp: "spec_statements n ST p2 = Some (rest, e, pE)"
    from new_node_Some [of "\<lambda>a. Ast_seq a []" p1 seq p2] al
    obtain a where seq: "seq = Ast_seq a []" by (auto simp: ast_seq_def)
    have "sequence_of n ST p = sequence_loop n ST (Ast_seq a []) first p2"
      using st ne al seq by (simp add: sequence_of_def sub_simps)
    with sequence_loop_collects [OF sp, of a "[]" first] seq
    show "\<exists>a. seq = Ast_seq a []
          \<and> sequence_of n ST p = Some (SUCCESS (Ast_seq a (first # rest)), release e pE)"
      by simp
  qed
qed (simp_all add: eval cong: eval_cong)

text \<open>The second part on the source \<open>a b c\<close>.\<close>

theorem sequence_until_empty_witness:
  "map_option fst
     (sequence_of (Suc (Suc (Suc 0)))
        (statement (Suc (Suc (Suc 0))) (sequence (Suc (Suc (Suc 0)))) (expression (Suc (Suc (Suc 0)))))
        \<lparr>lexer = lexer_init (heap_init []) (string_from_buf ''a b c''), token = TOKEN_INVALID, ready = False\<rparr>) =
     Some (SUCCESS (Ast_seq 4 [Ast_id 2 (Owned 3 ''a''), Ast_id 6 (Owned 7 ''b''),
                               Ast_id 9 (Owned 10 ''c'')]))"
proof -
  let ?N = "Suc (Suc (Suc 0))"
  let ?ST = "statement ?N (sequence ?N) (expression ?N)"
  let ?P = "\<lparr>lexer = lexer_init (heap_init []) (string_from_buf ''a b c''), token = TOKEN_INVALID, ready = False\<rparr>"
  let ?first = "Ast_id 2 (Owned 3 ''a'')"
  let ?Pa = "snd (the (?ST ?P))"
  let ?Pb = "snd (alloc ast_seq ?Pa)"
  let ?rest = "[Ast_id 6 (Owned 7 ''b''), Ast_id 9 (Owned 10 ''c'')]"
  let ?e = "Ast 11 AST_EMPTY AST_NONE"
  let ?Pe = "snd (snd (the (spec_statements ?N ?ST ?Pb)))"
  have 1: "?ST ?P = Some (SUCCESS ?first, ?Pa)"
    by (simp add: eval cong: eval_cong)
  have 2: "ast_type_of ?first \<noteq> AST_EMPTY"
    by simp
  have 3: "alloc ast_seq ?Pa = (Some (Ast_seq 4 []), ?Pb)"
    by (simp add: eval cong: eval_cong)
  have 4: "spec_statements ?N ?ST ?Pb = Some (?rest, ?e, ?Pe)"
    by (simp add: eval cong: eval_cong)
  note rule = sequence_until_empty [THEN conjunct2, THEN conjunct1, rule_format]
  from rule [OF conjI [OF 1 conjI [OF 2 conjI [OF 3 4]]]]
  have "sequence_of ?N ?ST ?P = Some (SUCCESS (Ast_seq 4 (?first # ?rest)), release ?e ?Pe)"
    by simp
  then show ?thesis by simp
qed

text \<open>
  C8. Once the lexeme buffer fails to grow, the latch \<open>error\<close> is set and every later call
  of \<open>lex\<close> on that state returns the error token. The code does otherwise on a source of
  129 digits, a space, three quotes and \<open>b\<close>, when \<open>realloc\<close> fails: the first call of
  \<open>lex\<close> sets the latch at the 129th digit and returns the error token; the second call,
  with the latch set, enters \<open>multiline_string\<close>, which moves the cursor to 135, past the
  terminator at 134, and goes on reading outside the input.
\<close>

theorem latched_lex_overrun:
  "(case lex (lexer_init (heap_init [True, False])
               (string_from_buf (''111111111111111111111111111111111111111111111111111111111111111111111111111111111111111111111111111111111111111111111111111111111''
                @ '' '' @ [QUOTE, QUOTE, QUOTE] @ ''b''))) of
      (t1, l1) \<Rightarrow>
        (t1, error l1, input_pos l1, fault (mem l1),
         case lex l1 of (t2, l2) \<Rightarrow> (error l2, input_len l2, input_pos l2, fault (mem l2)))) =
     (TOKEN_ERROR, True, 129, False, True, 134, 135, True)"
  by (simp add: eval cong: eval_cong)



text \<open>
  C10, as stated: an additive operator at the start of a statement parses to a binary
  node whose left operand is the Empty node. The code reads a leading \<open>+\<close> or \<open>-\<close> in
  \<open>unary\<close>, as a prefix operator: the source \<open>+ 1\<close> parses to the unary plus of \<open>1\<close>,
  and the tree holds no binary node.
\<close>

theorem leading_plus_is_unary:
  "map_option fst (parse (heap_init []) (string_from_buf ''+ 1'')) =
     Some (Parsed (Ast_seq 3 [Ast_unary 2 AST_PLUS (Ast_number 1 1)]))"
  by (simp add: eval cong: eval_cong)

text \<open>
  C10, as the code has it, for the operators \<open>*\<close>, \<open>%\<close>, \<open>/\<close> (read in \<open>multiplicative\<close>),
  \<open><\<close>, \<open><=\<close>, \<open>>\<close>, \<open>>=\<close>, \<open>in\<close> (in \<open>relational\<close>) and \<open>==\<close>, \<open>!=\<close> (in \<open>equality\<close>)
  at statement position, that is when \<open>statement\<close> is entered with one of them as the
  next token. The first three parts: whenever the statement parses, its tree holds, down
  the left operands from its root, a binary node of that operator whose left operand is an
  Empty node and whose right operand is not; the missing left operand is never reported.
  The next three parts: the statement does parse, to that binary node itself, when the
  right operand parses to a node that is not Empty, the binary node is allocated, and the
  token after the right operand continues no expression. Then the sources: \<open>* 1\<close>,
  \<open>== 1\<close> and \<open>< 1\<close> parse to a sequence of one such node, \<open>* 1 + 2\<close> to a sum whose
  left operand is such a node. Elsewhere than at statement position the operand is
  required: \<open>a * * 1\<close> fails. A leading \<open>-\<close> or \<open>not\<close> is a prefix operator: \<open>- 1\<close>
  parses to the unary minus of \<open>1\<close>, and \<open>not in 1\<close> fails.
\<close>

theorem leading_operator_empty_operand:
  "(\<forall>n S m p t p0 ret r q.
      peek p = (t, p0)
      \<and> map_of [(TOKEN_STAR, AST_MUL), (TOKEN_PERCENT, AST_MOD), (TOKEN_SLASH, AST_DIV)] t = Some ret
      \<and> statement n S (expression m) p = Some (SUCCESS r, q)
      \<longrightarrow> (\<exists>a e rhs. on_left (Ast_binary a AST_ARITHMETIC ret e rhs) r
             \<and> ast_type_of e = AST_EMPTY \<and> ast_type_of rhs \<noteq> AST_EMPTY))
   \<and> (\<forall>n S m p t p0 ret r q.
      peek p = (t, p0)
      \<and> map_of [(TOKEN_LT, AST_LT), (TOKEN_LE, AST_LE), (TOKEN_GT, AST_GT),
                 (TOKEN_GE, AST_GE), (TOKEN_IN, AST_IN)] t = Some ret
      \<and> statement n S (expression m) p = Some (SUCCESS r, q)
      \<longrightarrow> (\<exists>a e rhs. on_left (Ast_binary a AST_RELATIONAL ret e rhs) r
             \<and> ast_type_of e = AST_EMPTY \<and> ast_type_of rhs \<noteq> AST_EMPTY))
   \<and> (\<forall>n S m p t p0 ret r q.
      peek p = (t, p0)
      \<and> map_of [(TOKEN_EQ, AST_EQ), (TOKEN_NE, AST_NE)] t = Some ret
      \<and> statement n S (expression m) p = Some (SUCCESS r, q)
      \<longrightarrow> (\<exists>a e rhs. on_left (Ast_binary a AST_RELATIONAL ret e rhs) r
             \<and> ast_type_of e = AST_EMPTY \<and> ast_type_of rhs \<noteq> AST_EMPTY))
   \<and> (\<forall>n S k p t p0 ret e p1 rhs p2 b p3 t2 p4.
      peek p = (t, p0)
      \<and> map_of [(TOKEN_STAR, AST_MUL), (TOKEN_PERCENT, AST_MOD), (TOKEN_SLASH, AST_DIV)] t = Some ret
      \<and> alloc ast_empty p0 = (Some e, p1)
      \<and> unary (Suc k) (expression (Suc (Suc k))) (p1\<lparr>ready := False\<rparr>) = Some (SUCCESS rhs, p2)
      \<and> ast_type_of rhs \<noteq> AST_EMPTY
      \<and> alloc (ast_binary AST_ARITHMETIC ret e rhs) p2 = (Some b, p3)
      \<and> peek p3 = (t2, p4)
      \<and> t2 \<notin> set [TOKEN_STAR, TOKEN_PERCENT, TOKEN_SLASH, TOKEN_PLUS, TOKEN_MINUS,
                     TOKEN_LT, TOKEN_LE, TOKEN_GT, TOKEN_GE, TOKEN_IN, TOKEN_NOT,
                     TOKEN_EQ, TOKEN_NE, TOKEN_AND, TOKEN_OR, TOKEN_TERNARY,
                     TOKEN_ASSIGN, TOKEN_ADD_ASSIGN, TOKEN_SUB_ASSIGN, TOKEN_MUL_ASSIGN,
                     TOKEN_DIV_ASSIGN, TOKEN_MOD_ASSIGN]
      \<longrightarrow> statement n S (expression (Suc (Suc (Suc k)))) p = Some (SUCCESS b, p4))
   \<and> (\<forall>n S k p t p0 ret e p1 rhs p2 b p3 t2 p4.
      peek p = (t, p0)
      \<and> map_of [(TOKEN_LT, AST_LT), (TOKEN_LE, AST_LE), (TOKEN_GT, AST_GT),
                 (TOKEN_GE, AST_GE), (TOKEN_IN, AST_IN)] t = Some ret
      \<and> alloc ast_empty p0 = (Some e, p1)
      \<and> additive (Suc k) (expression (Suc k)) (p1\<lparr>ready := False\<rparr>) = Some (SUCCESS rhs, p2)
      \<and> ast_type_of rhs \<noteq> AST_EMPTY
      \<and> alloc (ast_binary AST_RELATIONAL ret e rhs) p2 = (Some b, p3)
      \<and> peek p3 = (t2, p4)
      \<and> t2 \<notin> set [TOKEN_EQ, TOKEN_NE, TOKEN_AND, TOKEN_OR, TOKEN_TERNARY,
                     TOKEN_ASSIGN, TOKEN_ADD_ASSIGN, TOKEN_SUB_ASSIGN, TOKEN_MUL_ASSIGN,
                     TOKEN_DIV_ASSIGN, TOKEN_MOD_ASSIGN]
      \<longrightarrow> statement n S (expression (Suc (Suc k))) p = Some (SUCCESS b, p4))
   \<and> (\<forall>n S k p t p0 ret e p1 rhs p2 b p3 t2 p4.
      peek p = (t, p0)
      \<and> map_of [(TOKEN_EQ, AST_EQ), (TOKEN_NE, AST_NE)] t = Some ret
      \<and> alloc ast_empty p0 = (Some e, p1)
      \<and> relational (Suc k) (expression (Suc k)) (p1\<lparr>ready := False\<rparr>) = Some (SUCCESS rhs, p2)
      \<and> ast_type_of rhs \<noteq> AST_EMPTY
      \<and> alloc (ast_binary AST_RELATIONAL ret e rhs) p2 = (Some b, p3)
      \<and> peek p3 = (t2, p4)
      \<and> t2 \<notin> set [TOKEN_AND, TOKEN_OR, TOKEN_TERNARY,
                     TOKEN_ASSIGN, TOKEN_ADD_ASSIGN, TOKEN_SUB_ASSIGN, TOKEN_MUL_ASSIGN,
                     TOKEN_DIV_ASSIGN, TOKEN_MOD_ASSIGN]
      \<longrightarrow> statement n S (expression (Suc (Suc k))) p = Some (SUCCESS b, p4))
   \<and> map_option fst (parse (heap_init []) (string_from_buf ''* 1'')) =
       Some (Parsed (Ast_seq 4 [Ast_binary 3 AST_ARITHMETIC AST_MUL
                                  (Ast 1 AST_EMPTY AST_NONE) (Ast_number 2 1)]))
   \<and> map_option fst (parse (heap_init []) (string_from_buf ''== 1'')) =
       Some (Parsed (Ast_seq 4 [Ast_binary 3 AST_RELATIONAL AST_EQ
                                  (Ast 1 AST_EMPTY AST_NONE) (Ast_number 2 1)]))
   \<and> map_option fst (parse (heap_init []) (string_from_buf ''< 1'')) =
       Some (Parsed (Ast_seq 4 [Ast_binary 3 AST_RELATIONAL AST_LT
                                  (Ast 1 AST_EMPTY AST_NONE) (Ast_number 2 1)]))
   \<and> map_option fst (parse (heap_init []) (string_from_buf ''* 1 + 2'')) =
       Some (Parsed (Ast_seq 6 [Ast_binary 5 AST_ARITHMETIC AST_ADD
                                  (Ast_binary 3 AST_ARITHMETIC AST_MUL
                                     (Ast 1 AST_EMPTY AST_NONE) (Ast_number 2 1))
                                  (Ast_number 4 2)]))
   \<and> map_option fst (parse (heap_init []) (string_from_buf ''a * * 1'')) =
       Some (Error (Owned 5 ''multiplicative: expected expression''))
   \<and> map_option fst (parse (heap_init []) (string_from_buf ''- 1'')) =
       Some (Parsed (Ast_seq 3 [Ast_unary 2 AST_MINUS (Ast_number 1 1)]))
   \<and> map_option fst (parse (heap_init []) (string_from_buf ''not in 1'')) =
       Some (Error (Owned 2 ''unary: expected expression''))"
  apply (intro conjI)
              apply (intro allI impI, elim conjE, rule statement_multiplicative; assumption)
             apply (intro allI impI, elim conjE, rule statement_relational; assumption)
            apply (intro allI impI, elim conjE, rule statement_equality; assumption)
           apply (intro allI impI, elim conjE, rule statement_multiplicative_parses; assumption)
          apply (intro allI impI, elim conjE, rule statement_relational_parses; assumption)
         apply (intro allI impI, elim conjE, rule statement_equality_parses; assumption)
        apply (simp_all add: eval cong: eval_cong)
  done

text \<open>
  The fourth part and then the first on the source \<open>* 1\<close>: the statement parses to the
  product of an Empty node and \<open>1\<close>.
\<close>

theorem leading_operator_empty_operand_witness:
  "map_option fst (statement (Suc 0) (sequence (Suc 0)) (expression (Suc (Suc (Suc 0))))
      \<lparr>lexer = lexer_init (heap_init []) (string_from_buf ''* 1''), token = TOKEN_INVALID, ready = False\<rparr>) =
     Some (SUCCESS (Ast_binary 3 AST_ARITHMETIC AST_MUL (Ast 1 AST_EMPTY AST_NONE) (Ast_number 2 1)))
   \<and> (\<exists>a e rhs. on_left (Ast_binary a AST_ARITHMETIC AST_MUL e rhs)
                   (Ast_binary 3 AST_ARITHMETIC AST_MUL (Ast 1 AST_EMPTY AST_NONE) (Ast_number 2 1))
        \<and> ast_type_of e = AST_EMPTY \<and> ast_type_of rhs \<noteq> AST_EMPTY)"
proof -
  let ?E = "expression (Suc (Suc 0))"
  let ?S = "sequence (Suc 0)"
  let ?P = "\<lparr>lexer = lexer_init (heap_init []) (string_from_buf ''* 1''), token = TOKEN_INVALID, ready = False\<rparr>"
  let ?Pa = "snd (peek ?P)"
  let ?e = "Ast 1 AST_EMPTY AST_NONE"
  let ?Pb = "snd (alloc ast_empty ?Pa)"
  let ?rhs = "Ast_number 2 1"
  let ?Pc = "snd (the (unary (Suc 0) ?E (?Pb\<lparr>ready := False\<rparr>)))"
  let ?b = "Ast_binary 3 AST_ARITHMETIC AST_MUL ?e ?rhs"
  let ?Pd = "snd (alloc (ast_binary AST_ARITHMETIC AST_MUL ?e ?rhs) ?Pc)"
  let ?Pe = "snd (peek ?Pd)"
  let ?set = "set [TOKEN_STAR, TOKEN_PERCENT, TOKEN_SLASH, TOKEN_PLUS, TOKEN_MINUS,
                     TOKEN_LT, TOKEN_LE, TOKEN_GT, TOKEN_GE, TOKEN_IN, TOKEN_NOT,
                     TOKEN_EQ, TOKEN_NE, TOKEN_AND, TOKEN_OR, TOKEN_TERNARY,
                     TOKEN_ASSIGN, TOKEN_ADD_ASSIGN, TOKEN_SUB_ASSIGN, TOKEN_MUL_ASSIGN,
                     TOKEN_DIV_ASSIGN, TOKEN_MOD_ASSIGN]"
  have 1: "peek ?P = (TOKEN_STAR, ?Pa)"
    by (simp add: eval cong: eval_cong)
  have 2: "map_of [(TOKEN_STAR, AST_MUL), (TOKEN_PERCENT, AST_MOD), (TOKEN_SLASH, AST_DIV)]
             TOKEN_STAR = Some AST_MUL"
    by simp
  have 3: "alloc ast_empty ?Pa = (Some ?e, ?Pb)"
    by (simp add: eval cong: eval_cong)
  have 4: "unary (Suc 0) ?E (?Pb\<lparr>ready := False\<rparr>) = Some (SUCCESS ?rhs, ?Pc)"
    by (simp add: eval cong: eval_cong)
  have 5: "ast_type_of ?rhs \<noteq> AST_EMPTY"
    by simp
  have 6: "alloc (ast_binary AST_ARITHMETIC AST_MUL ?e ?rhs) ?Pc = (Some ?b, ?Pd)"
    by (simp add: eval cong: eval_cong)
  have 7: "peek ?Pd = (TOKEN_END, ?Pe)"
    by (simp add: eval cong: eval_cong)
  have 8: "TOKEN_END \<notin> ?set"
    by simp
  note parses = leading_operator_empty_operand
    [THEN conjunct2, THEN conjunct2, THEN conjunct2, THEN conjunct1, rule_format]
  note holds = leading_operator_empty_operand [THEN conjunct1, rule_format]
  have s: "statement (Suc 0) ?S (expression (Suc (Suc (Suc 0)))) ?P = Some (SUCCESS ?b, ?Pe)"
    by (rule parses [of ?P TOKEN_STAR ?Pa AST_MUL ?e ?Pb 0 ?rhs ?Pc ?b ?Pd TOKEN_END ?Pe],
        intro conjI 1 2 3 4 5 6 7 8)
  from holds [of ?P TOKEN_STAR ?Pa AST_MUL "Suc 0" ?S "Suc (Suc (Suc 0))" ?b ?Pe, OF conjI [OF 1 conjI [OF 2 s]]] s
  show ?thesis by simp
qed

end
